theory Spec2Isabelle
  imports Main "HOL-Library.Word"
begin

section \<open>Data model\<close>

text \<open>
  Timestamps are JavaScript \<open>Date\<close> time values: whole milliseconds since the epoch
  (well inside the range where the arithmetic of the source is exact). Object ids are
  natural numbers. A nullable \<open>Date\<close> field is a \<open>time option\<close>, with \<open>None\<close> for
  \<open>null\<close> and for an absent field.

  The records keep the fields of the Mongoose schemas that the jobs and handlers below
  read or write; \<open>t_id\<close>, \<open>u_id\<close> and \<open>c_id\<close> stand for \<open>_id\<close>, and the fields of a
  category carry the prefix \<open>c_\<close> where the name is shared with a task.

  The strings that requests bring and that are trimmed and measured (titles, category
  names) are JavaScript strings: sequences of UTF-16 code units, here 16-bit words.
\<close>

type_synonym time = int
type_synonym oid = nat
type_synonym jsstring = "16 word list"

record user_preferences =
  emailNotifications :: bool

record User =
  u_id :: oid
  u_name :: string
  email :: string
  preferences :: user_preferences

record Task =
  t_id :: oid
  title :: jsstring
  completed :: bool
  category :: jsstring
  dueDate :: "time option"
  reminderDate :: "time option"
  userId :: oid
  completedAt :: "time option"
  createdAt :: time

record Category =
  c_id :: oid
  c_name :: jsstring
  c_userId :: oid
  isDefault :: bool
  c_order :: nat

record store =
  users :: "User list"
  tasks :: "Task list"
  categories :: "Category list"

text \<open>The weekly summary, without \<open>completionRate\<close> (a floating-point quotient) and
  \<open>topCategory\<close> (the first group of a sort whose order among ties the store chooses).\<close>

record summary =
  completedTasks :: nat
  createdTasks :: nat
  streak :: nat

section \<open>Environment: the mail channel and the store's failures\<close>

text \<open>
  Every \<open>await\<close> on the store can reject, and \<open>sendMail\<close> can reject. The environment
  decides which calls do: \<open>dbFails\<close> for the calls on the store, \<open>sendMailFails\<close> for the
  mail channel. \<open>transporter\<close> says whether the mail transporter was configured.
\<close>

datatype db_call =
    Task_find "oid option"
  | Task_findOne oid
  | Task_save oid
  | Task_countDocuments oid
  | Task_aggregate oid
  | User_find
  | Category_findOne oid
  | Category_save oid
  | Category_updateMany oid
  | Category_findByIdAndDelete oid

datatype db_error = Rejected db_call | ValidationError | DuplicateKey

datatype mail_kind =
    ReminderMail Task
  | DueSoonMail "Task list"
  | WeeklyMail summary

record env =
  transporter :: bool
  sendMailFails :: "string \<Rightarrow> mail_kind \<Rightarrow> bool"
  dbFails :: "db_call \<Rightarrow> bool"

text \<open>
  What a job leaves behind, in order: \<open>Called u m\<close> when a dispatcher function is entered
  for user \<open>u\<close>, \<open>Sent a m\<close> when \<open>sendMail\<close> to address \<open>a\<close> resolved, \<open>SendFailed a m\<close>
  when it rejected and the dispatcher's own \<open>catch\<close> logged it, \<open>JobError e\<close> when the
  job's outer \<open>catch\<close> logged \<open>e\<close> and the run ended.
\<close>

datatype event =
    Called User mail_kind
  | Sent string mail_kind
  | SendFailed string mail_kind
  | JobError db_error

section \<open>Mongoose documents of the Task model\<close>

text \<open>
  A document in memory: its current values, whether it is new, and the paths marked
  modified. Assigning a path of a new document always marks it; on a loaded document
  the path is marked when the value differs from the one it held.
\<close>

datatype task_path =
  P_title | P_completed | P_category | P_dueDate | P_reminderDate | P_userId | P_completedAt

record task_doc =
  doc :: Task
  isNew :: bool
  modified :: "task_path set"

definition isModified :: "task_path \<Rightarrow> task_doc \<Rightarrow> bool" where
  "isModified p d = (p \<in> modified d)"

definition mark :: "task_path \<Rightarrow> bool \<Rightarrow> task_doc \<Rightarrow> task_doc" where
  "mark p differs d = (if isNew d \<or> differs then d\<lparr>modified := insert p (modified d)\<rparr> else d)"

text \<open>
  The white space that \<open>String.prototype.trim\<close> (the schema's \<open>trim: true\<close>) and the
  validators' \<open>trim\<close> (the regular expression class \<open>\s\<close>) strip from both ends: tab, line
  feed, vertical tab, form feed, carriage return, space, U+00A0, U+1680, U+2000 to U+200A,
  U+2028, U+2029, U+202F, U+205F, U+3000 and U+FEFF.
\<close>

definition isspace :: "16 word \<Rightarrow> bool" where
  "isspace c =
     ((9 \<le> c \<and> c \<le> 13) \<or> c = 32 \<or> c = 160 \<or> c = 5760 \<or> (8192 \<le> c \<and> c \<le> 8202) \<or>
      c = 8232 \<or> c = 8233 \<or> c = 8239 \<or> c = 8287 \<or> c = 12288 \<or> c = 65279)"

definition trim :: "jsstring \<Rightarrow> jsstring" where
  "trim s = rev (dropWhile isspace (rev (dropWhile isspace s)))"

definition set_title :: "jsstring \<Rightarrow> task_doc \<Rightarrow> task_doc" where
  "set_title v d = (mark P_title (title (doc d) \<noteq> trim v) d)\<lparr>doc := (doc d)\<lparr>title := trim v\<rparr>\<rparr>"

definition set_completed :: "bool \<Rightarrow> task_doc \<Rightarrow> task_doc" where
  "set_completed v d = (mark P_completed (completed (doc d) \<noteq> v) d)\<lparr>doc := (doc d)\<lparr>completed := v\<rparr>\<rparr>"

definition set_category :: "jsstring \<Rightarrow> task_doc \<Rightarrow> task_doc" where
  "set_category v d =
     (mark P_category (category (doc d) \<noteq> trim v) d)\<lparr>doc := (doc d)\<lparr>category := trim v\<rparr>\<rparr>"

definition set_dueDate :: "time option \<Rightarrow> task_doc \<Rightarrow> task_doc" where
  "set_dueDate v d = (mark P_dueDate (dueDate (doc d) \<noteq> v) d)\<lparr>doc := (doc d)\<lparr>dueDate := v\<rparr>\<rparr>"

definition set_reminderDate :: "time option \<Rightarrow> task_doc \<Rightarrow> task_doc" where
  "set_reminderDate v d =
     (mark P_reminderDate (reminderDate (doc d) \<noteq> v) d)\<lparr>doc := (doc d)\<lparr>reminderDate := v\<rparr>\<rparr>"

definition set_userId :: "oid \<Rightarrow> task_doc \<Rightarrow> task_doc" where
  "set_userId v d = (mark P_userId (userId (doc d) \<noteq> v) d)\<lparr>doc := (doc d)\<lparr>userId := v\<rparr>\<rparr>"

definition set_completedAt :: "time option \<Rightarrow> task_doc \<Rightarrow> task_doc" where
  "set_completedAt v d =
     (mark P_completedAt (completedAt (doc d) \<noteq> v) d)\<lparr>doc := (doc d)\<lparr>completedAt := v\<rparr>\<rparr>"

definition loaded :: "Task \<Rightarrow> task_doc" where
  "loaded t = \<lparr>doc = t, isNew = False, modified = {}\<rparr>"

text \<open>\<open>taskSchema.pre('save')\<close>: the hook that sets the \<open>completedAt\<close> timestamp.\<close>

definition task_pre_save :: "time \<Rightarrow> task_doc \<Rightarrow> task_doc" where
  "task_pre_save now d =
     (if isModified P_completed d then
        (if completed (doc d) then set_completedAt (Some now) d
         else set_completedAt None d)
      else d)"

text \<open>The schema's own validation, which every \<open>save\<close> runs before the hook, on a new
  document and on a loaded one alike: \<open>title\<close> and \<open>category\<close> are required (present and not
  empty) and bounded in length, counted in code units.\<close>

definition task_valid :: "task_doc \<Rightarrow> bool" where
  "task_valid d =
     (title (doc d) \<noteq> [] \<and> length (title (doc d)) \<le> 200 \<and>
      category (doc d) \<noteq> [] \<and> length (category (doc d)) \<le> 50)"

text \<open>
  \<open>task.save()\<close>: validation, the hook, then the write. A new document is inserted; a
  loaded one replaces the stored document of the same \<open>_id\<close> (the handlers and jobs are
  the only writers between the load and the save, and they write other documents only,
  so replacing the document and writing its modified paths agree).
\<close>

definition task_save :: "env \<Rightarrow> time \<Rightarrow> task_doc \<Rightarrow> store \<Rightarrow> db_error + (Task \<times> store)" where
  "task_save env now d st =
     (if \<not> task_valid d then Inl ValidationError
      else
        let t = doc (task_pre_save now d) in
        if dbFails env (Task_save (t_id t)) then Inl (Rejected (Task_save (t_id t)))
        else if isNew d then Inr (t, st\<lparr>tasks := tasks st @ [t]\<rparr>)
        else Inr (t, st\<lparr>tasks := map (\<lambda>x. if t_id x = t_id t then t else x) (tasks st)\<rparr>))"

section \<open>Notification dispatcher\<close>

text \<open>\<open>transporter.sendMail\<close> inside the dispatcher's \<open>try\<close>: a rejection is logged there
  and goes no further. The rendered HTML is a function of the user and the message and
  is not carried along.\<close>

definition sendMail :: "env \<Rightarrow> string \<Rightarrow> mail_kind \<Rightarrow> event list" where
  "sendMail env to m = (if sendMailFails env to m then [SendFailed to m] else [Sent to m])"

definition sendTaskReminder :: "env \<Rightarrow> User \<Rightarrow> Task \<Rightarrow> event list" where
  "sendTaskReminder env user task =
     Called user (ReminderMail task) #
     (if \<not> transporter env \<or> \<not> emailNotifications (preferences user) then []
      else sendMail env (email user) (ReminderMail task))"

definition sendTaskDueSoonNotification :: "env \<Rightarrow> User \<Rightarrow> Task list \<Rightarrow> event list" where
  "sendTaskDueSoonNotification env user ts =
     Called user (DueSoonMail ts) #
     (if \<not> transporter env \<or> \<not> emailNotifications (preferences user) \<or> length ts = 0 then []
      else sendMail env (email user) (DueSoonMail ts))"

definition sendWeeklySummary :: "env \<Rightarrow> User \<Rightarrow> summary \<Rightarrow> event list" where
  "sendWeeklySummary env user s =
     Called user (WeeklyMail s) #
     (if \<not> transporter env \<or> \<not> emailNotifications (preferences user) then []
      else sendMail env (email user) (WeeklyMail s))"

section \<open>Reminder scan\<close>

definition reminderWindow :: "time \<Rightarrow> time" where
  "reminderWindow now = now + 15 * 60 * 1000"

text \<open>The filter of the scan's query: \<open>completed: false\<close> and \<open>reminderDate\<close> between
  \<open>now\<close> and \<open>reminderWindow\<close>, both bounds included; a \<open>null\<close> date matches no range.\<close>

definition reminderQuery :: "time \<Rightarrow> Task \<Rightarrow> bool" where
  "reminderQuery now t =
     (completed t = False \<and>
      (case reminderDate t of
         None \<Rightarrow> False
       | Some r \<Rightarrow> now \<le> r \<and> r \<le> reminderWindow now))"

definition tasksToRemind :: "time \<Rightarrow> store \<Rightarrow> Task list" where
  "tasksToRemind now st = filter (reminderQuery now) (tasks st)"

text \<open>\<open>populate('userId')\<close>: the owner's document, or \<open>null\<close> when there is none.\<close>

definition populate_userId :: "store \<Rightarrow> Task \<Rightarrow> User option" where
  "populate_userId st t = find (\<lambda>u. u_id u = userId t) (users st)"

text \<open>The \<open>for\<close> loop of the scan over the tasks found, threading the store and the log.
  A rejected \<open>save\<close> leaves the loop for the job's \<open>catch\<close>.\<close>

fun remindLoop :: "env \<Rightarrow> time \<Rightarrow> (Task \<times> User option) list \<Rightarrow> store \<Rightarrow> event list
    \<Rightarrow> store \<times> event list" where
  "remindLoop env now [] st log = (st, log)"
| "remindLoop env now ((task, owner) # rest) st log =
     (case owner of
        None \<Rightarrow> remindLoop env now rest st log
      | Some user \<Rightarrow>
          if emailNotifications (preferences user) then
            (let log' = log @ sendTaskReminder env user task in
             case task_save env now (set_reminderDate None (loaded task)) st of
               Inl e \<Rightarrow> (st, log' @ [JobError e])
             | Inr (t', st') \<Rightarrow> remindLoop env now rest st' log')
          else remindLoop env now rest st log)"

definition checkAndSendReminders :: "env \<Rightarrow> time \<Rightarrow> store \<Rightarrow> store \<times> event list" where
  "checkAndSendReminders env now st =
     (if dbFails env (Task_find None) then (st, [JobError (Rejected (Task_find None))])
      else remindLoop env now (map (\<lambda>t. (t, populate_userId st t)) (tasksToRemind now st)) st [])"

section \<open>Daily due-soon job\<close>

text \<open>\<open>tomorrow\<close> is the end of the next local calendar day, as the job computes it from
  the clock. The query takes the user's incomplete tasks due by then, at most ten.\<close>

definition dueSoonQuery :: "oid \<Rightarrow> time \<Rightarrow> Task \<Rightarrow> bool" where
  "dueSoonQuery uid tomorrow t =
     (userId t = uid \<and> completed t = False \<and>
      (case dueDate t of None \<Rightarrow> False | Some d \<Rightarrow> d \<le> tomorrow))"

definition dueSoonTasks :: "oid \<Rightarrow> time \<Rightarrow> store \<Rightarrow> Task list" where
  "dueSoonTasks uid tomorrow st = take 10 (filter (dueSoonQuery uid tomorrow) (tasks st))"

definition notifiedUsers :: "store \<Rightarrow> User list" where
  "notifiedUsers st = filter (\<lambda>u. emailNotifications (preferences u) = True) (users st)"

fun dailyLoop :: "env \<Rightarrow> time \<Rightarrow> store \<Rightarrow> User list \<Rightarrow> event list" where
  "dailyLoop env tomorrow st [] = []"
| "dailyLoop env tomorrow st (user # rest) =
     (if dbFails env (Task_find (Some (u_id user)))
      then [JobError (Rejected (Task_find (Some (u_id user))))]
      else
        (if length (dueSoonTasks (u_id user) tomorrow st) > 0
         then sendTaskDueSoonNotification env user (dueSoonTasks (u_id user) tomorrow st)
         else []) @ dailyLoop env tomorrow st rest)"

definition sendDailySummary :: "env \<Rightarrow> time \<Rightarrow> store \<Rightarrow> event list" where
  "sendDailySummary env tomorrow st =
     (if dbFails env User_find then [JobError (Rejected User_find)]
      else dailyLoop env tomorrow st (notifiedUsers st))"

section \<open>Weekly summary job\<close>

text \<open>The store's \<open>$dateToString\<close> with format \<open>%Y-%m-%d\<close>, in UTC: the civil date of the
  day a timestamp falls on.\<close>

definition civil_from_days :: "int \<Rightarrow> int \<times> int \<times> int" where
  "civil_from_days z0 =
     (let z = z0 + 719468;
          era = z div 146097;
          doe = z - era * 146097;
          yoe = (doe - doe div 1460 + doe div 36524 - doe div 146096) div 365;
          y = yoe + era * 400;
          doy = doe - (365 * yoe + yoe div 4 - yoe div 100);
          mp = (5 * doy + 2) div 153;
          d = doy - (153 * mp + 2) div 5 + 1;
          m = (if mp < 10 then mp + 3 else mp - 9)
      in (if m \<le> 2 then y + 1 else y, m, d))"

definition digit :: "int \<Rightarrow> char" where
  "digit n = char_of (48 + n mod 10)"

definition digits2 :: "int \<Rightarrow> string" where
  "digits2 n = [digit (n div 10), digit n]"

definition digits4 :: "int \<Rightarrow> string" where
  "digits4 n = [digit (n div 1000), digit (n div 100), digit (n div 10), digit n]"

definition dateToString :: "time \<Rightarrow> string" where
  "dateToString t =
     (case civil_from_days (t div 86400000) of
        (y, m, d) \<Rightarrow> digits4 y @ ''-'' @ digits2 m @ ''-'' @ digits2 d)"

text \<open>The \<open>$match\<close> stage shared by the count of completed tasks and the two
  aggregations: the user's completed tasks with \<open>completedAt\<close> at or after \<open>startDate\<close>.\<close>

definition completedSince :: "oid \<Rightarrow> time \<Rightarrow> Task \<Rightarrow> bool" where
  "completedSince uid startDate t =
     (userId t = uid \<and> completed t = True \<and>
      (case completedAt t of None \<Rightarrow> False | Some c \<Rightarrow> startDate \<le> c))"

definition createdSince :: "oid \<Rightarrow> time \<Rightarrow> Task \<Rightarrow> bool" where
  "createdSince uid startDate t = (userId t = uid \<and> startDate \<le> createdAt t)"

text \<open>The \<open>$group\<close> stage of the streak pipeline: one group per distinct date string.\<close>

definition completionDay :: "Task \<Rightarrow> string list" where
  "completionDay t = (case completedAt t of None \<Rightarrow> [] | Some c \<Rightarrow> [dateToString c])"

definition recentDays :: "oid \<Rightarrow> time \<Rightarrow> store \<Rightarrow> string list" where
  "recentDays uid startDate st =
     remdups (concat (map completionDay (filter (completedSince uid startDate) (tasks st))))"

definition generateWeeklyStats :: "env \<Rightarrow> oid \<Rightarrow> time \<Rightarrow> store \<Rightarrow> db_error + summary" where
  "generateWeeklyStats env uid startDate st =
     (if dbFails env (Task_countDocuments uid) then Inl (Rejected (Task_countDocuments uid))
      else if dbFails env (Task_aggregate uid) then Inl (Rejected (Task_aggregate uid))
      else Inr \<lparr>completedTasks = length (filter (completedSince uid startDate) (tasks st)),
                createdTasks = length (filter (createdSince uid startDate) (tasks st)),
                streak = length (recentDays uid startDate st)\<rparr>)"

fun weeklyLoop :: "env \<Rightarrow> time \<Rightarrow> store \<Rightarrow> User list \<Rightarrow> event list" where
  "weeklyLoop env oneWeekAgo st [] = []"
| "weeklyLoop env oneWeekAgo st (user # rest) =
     (case generateWeeklyStats env (u_id user) oneWeekAgo st of
        Inl e \<Rightarrow> [JobError e]
      | Inr weeklyStats \<Rightarrow>
          sendWeeklySummary env user weeklyStats @ weeklyLoop env oneWeekAgo st rest)"

definition sendWeeklySummaries :: "env \<Rightarrow> time \<Rightarrow> store \<Rightarrow> event list" where
  "sendWeeklySummaries env oneWeekAgo st =
     (if dbFails env User_find then [JobError (Rejected User_find)]
      else weeklyLoop env oneWeekAgo st (notifiedUsers st))"

section \<open>Task routes\<close>

text \<open>The JSON envelope of a response, with its HTTP status.\<close>

record 'a response =
  status :: nat
  success :: bool
  message :: string
  data :: "'a option"

definition respond :: "nat \<Rightarrow> bool \<Rightarrow> string \<Rightarrow> 'a option \<Rightarrow> 'a response" where
  "respond s ok m d = \<lparr>status = s, success = ok, message = m, data = d\<rparr>"

text \<open>
  A request body, by key: \<open>None\<close> when the key is absent. The handlers copy every key
  of the body onto the document, also those no validator names, so the body carries
  \<open>reminderDate\<close>, \<open>completedAt\<close> and \<open>userId\<close> too (\<open>Some None\<close> is an explicit
  \<open>null\<close>). \<open>dueDate\<close> is the date its ISO 8601 string denotes.
\<close>

record task_body =
  b_title :: "jsstring option"
  b_completed :: "bool option"
  b_category :: "jsstring option"
  b_dueDate :: "time option"
  b_reminderDate :: "time option option"
  b_completedAt :: "time option option"
  b_userId :: "oid option"

definition assign :: "('a \<Rightarrow> task_doc \<Rightarrow> task_doc) \<Rightarrow> 'a option \<Rightarrow> task_doc \<Rightarrow> task_doc" where
  "assign setter v d = (case v of None \<Rightarrow> d | Some x \<Rightarrow> setter x d)"

text \<open>\<open>task[key] = req.body[key]\<close> for every key of the body.\<close>

definition assign_body :: "task_body \<Rightarrow> task_doc \<Rightarrow> task_doc" where
  "assign_body b d =
     assign set_userId (b_userId b)
      (assign set_completedAt (b_completedAt b)
        (assign set_reminderDate (b_reminderDate b)
          (assign set_dueDate (map_option Some (b_dueDate b))
            (assign set_category (b_category b)
              (assign set_completed (b_completed b)
                (assign set_title (b_title b) d))))))"

text \<open>
  The validators' \<open>isLength\<close> does not count code units: a surrogate pair counts once, and
  the variation selectors U+FE0E and U+FE0F are not counted.
\<close>

fun surrogatePairs :: "jsstring \<Rightarrow> nat" where
  "surrogatePairs (a # b # rest) =
     (if 55296 \<le> a \<and> a \<le> 56319 \<and> 56320 \<le> b \<and> b \<le> 57343
      then Suc (surrogatePairs rest) else surrogatePairs (b # rest))"
| "surrogatePairs rest = 0"

definition presentationSequences :: "jsstring \<Rightarrow> nat" where
  "presentationSequences s = length (filter (\<lambda>c. c = 65039 \<or> c = 65038) s)"

definition isLength :: "nat \<Rightarrow> nat \<Rightarrow> jsstring \<Rightarrow> bool" where
  "isLength lo hi s =
     (let len = length s - presentationSequences s - surrogatePairs s
      in lo \<le> len \<and> len \<le> hi)"

text \<open>The validators on the keys above: \<open>title\<close> and \<open>category\<close> are trimmed and must
  then have 1 to 200 and 1 to 50 characters; \<open>POST\<close> requires both, \<open>PUT\<close> checks them when
  present. The keys the records do not carry (priority, tags, durations and the like) are
  taken to pass their validators; a \<open>dueDate\<close> that fails its validator or does not parse
  leads to no save.\<close>

definition bounded :: "nat \<Rightarrow> nat \<Rightarrow> jsstring option \<Rightarrow> bool" where
  "bounded lo hi v = (case v of None \<Rightarrow> lo = 0 | Some x \<Rightarrow> isLength lo hi (trim x))"

definition optional :: "nat \<Rightarrow> nat \<Rightarrow> jsstring option \<Rightarrow> bool" where
  "optional lo hi v = (case v of None \<Rightarrow> True | Some x \<Rightarrow> isLength lo hi (trim x))"

definition sanitize :: "task_body \<Rightarrow> task_body" where
  "sanitize b = b\<lparr>b_title := map_option trim (b_title b), b_category := map_option trim (b_category b)\<rparr>"

definition new_Task :: "oid \<Rightarrow> time \<Rightarrow> task_body \<Rightarrow> task_doc" where
  "new_Task newId now b =
     assign_body b
       \<lparr>doc = \<lparr>t_id = newId, title = [], completed = False, category = [], dueDate = None,
               reminderDate = None, userId = 0, completedAt = None, createdAt = now\<rparr>,
        isNew = True, modified = {}\<rparr>"

text \<open>\<open>POST /api/tasks\<close> for the authenticated user \<open>uid\<close>; \<open>newId\<close> is the \<open>_id\<close> the new
  document gets.\<close>

definition createTask :: "env \<Rightarrow> time \<Rightarrow> oid \<Rightarrow> oid \<Rightarrow> task_body \<Rightarrow> store
    \<Rightarrow> Task response \<times> store" where
  "createTask env now uid newId body st =
     (if \<not> (bounded 1 200 (b_title body) \<and> bounded 1 50 (b_category body))
      then (respond 400 False ''Validation failed'' None, st)
      else
        let taskData = (sanitize body)\<lparr>b_userId := Some uid\<rparr>;
            taskData' = (case b_dueDate taskData of
                           None \<Rightarrow> taskData
                         | Some due \<Rightarrow> taskData\<lparr>b_reminderDate := Some (Some (due - 60 * 60 * 1000))\<rparr>)
        in case task_save env now (new_Task newId now taskData') st of
             Inl e \<Rightarrow> (respond 500 False ''Server error creating task'' None, st)
           | Inr (task, st') \<Rightarrow> (respond 201 True ''Task created successfully'' (Some task), st'))"

text \<open>\<open>PUT /api/tasks/:id\<close>.\<close>

definition updateTask :: "env \<Rightarrow> time \<Rightarrow> oid \<Rightarrow> oid \<Rightarrow> task_body \<Rightarrow> store
    \<Rightarrow> Task response \<times> store" where
  "updateTask env now uid tid body st =
     (if \<not> (optional 1 200 (b_title body) \<and> optional 1 50 (b_category body))
      then (respond 400 False ''Validation failed'' None, st)
      else if dbFails env (Task_findOne tid)
      then (respond 500 False ''Server error updating task'' None, st)
      else
        case find (\<lambda>t. t_id t = tid \<and> userId t = uid) (tasks st) of
          None \<Rightarrow> (respond 404 False ''Task not found'' None, st)
        | Some found \<Rightarrow>
            let task = assign_body (sanitize body) (loaded found);
                task' = (case b_dueDate body of
                           None \<Rightarrow> task
                         | Some due \<Rightarrow> set_reminderDate (Some (due - 60 * 60 * 1000)) task)
            in case task_save env now task' st of
                 Inl e \<Rightarrow> (respond 500 False ''Server error updating task'' None, st)
               | Inr (saved, st') \<Rightarrow>
                   (respond 200 True ''Task updated successfully'' (Some saved), st'))"

section \<open>Category model and routes\<close>

datatype category_path = P_name | P_owner | P_isDefault | P_order

record category_doc =
  cdoc :: Category
  c_isNew :: bool
  c_modified :: "category_path set"

definition c_mark :: "category_path \<Rightarrow> bool \<Rightarrow> category_doc \<Rightarrow> category_doc" where
  "c_mark p differs d =
     (if c_isNew d \<or> differs then d\<lparr>c_modified := insert p (c_modified d)\<rparr> else d)"

definition set_name :: "jsstring \<Rightarrow> category_doc \<Rightarrow> category_doc" where
  "set_name v d = (c_mark P_name (c_name (cdoc d) \<noteq> trim v) d)\<lparr>cdoc := (cdoc d)\<lparr>c_name := trim v\<rparr>\<rparr>"

definition set_owner :: "oid \<Rightarrow> category_doc \<Rightarrow> category_doc" where
  "set_owner v d = (c_mark P_owner (c_userId (cdoc d) \<noteq> v) d)\<lparr>cdoc := (cdoc d)\<lparr>c_userId := v\<rparr>\<rparr>"

definition set_isDefault :: "bool \<Rightarrow> category_doc \<Rightarrow> category_doc" where
  "set_isDefault v d =
     (c_mark P_isDefault (isDefault (cdoc d) \<noteq> v) d)\<lparr>cdoc := (cdoc d)\<lparr>isDefault := v\<rparr>\<rparr>"

definition set_order :: "nat \<Rightarrow> category_doc \<Rightarrow> category_doc" where
  "set_order v d = (c_mark P_order (c_order (cdoc d) \<noteq> v) d)\<lparr>cdoc := (cdoc d)\<lparr>c_order := v\<rparr>\<rparr>"

text \<open>\<open>categorySchema.pre('save')\<close>: when the document is the default and \<open>isDefault\<close> is
  modified, \<open>updateMany\<close> takes the flag from the other categories of its user.\<close>

definition clearOtherDefaults :: "Category \<Rightarrow> Category list \<Rightarrow> Category list" where
  "clearOtherDefaults this cs =
     map (\<lambda>c. if c_userId c = c_userId this \<and> c_id c \<noteq> c_id this then c\<lparr>isDefault := False\<rparr> else c) cs"

definition category_pre_save :: "env \<Rightarrow> category_doc \<Rightarrow> store \<Rightarrow> db_error + store" where
  "category_pre_save env d st =
     (if isDefault (cdoc d) \<and> P_isDefault \<in> c_modified d then
        (if dbFails env (Category_updateMany (c_userId (cdoc d)))
         then Inl (Rejected (Category_updateMany (c_userId (cdoc d))))
         else Inr (st\<lparr>categories := clearOtherDefaults (cdoc d) (categories st)\<rparr>))
      else Inr st)"

text \<open>The schema's validation of a category, run by every \<open>save\<close>: \<open>name\<close> is required
  and has at most 50 code units.\<close>

definition category_valid :: "category_doc \<Rightarrow> bool" where
  "category_valid d = (c_name (cdoc d) \<noteq> [] \<and> length (c_name (cdoc d)) \<le> 50)"

text \<open>The unique index on \<open>(userId, name)\<close>.\<close>

definition nameTaken :: "Category \<Rightarrow> Category list \<Rightarrow> bool" where
  "nameTaken this cs =
     list_ex (\<lambda>c. c_id c \<noteq> c_id this \<and> c_userId c = c_userId this \<and> c_name c = c_name this) cs"

text \<open>\<open>category.save()\<close>. What the hook wrote stays written when the write of the
  document itself is rejected, so the store comes back on both sides.\<close>

definition category_save :: "env \<Rightarrow> category_doc \<Rightarrow> store \<Rightarrow> (db_error + Category) \<times> store" where
  "category_save env d st =
     (if \<not> category_valid d then (Inl ValidationError, st)
      else
        case category_pre_save env d st of
          Inl e \<Rightarrow> (Inl e, st)
        | Inr st1 \<Rightarrow>
            let c = cdoc d in
            if dbFails env (Category_save (c_id c)) then (Inl (Rejected (Category_save (c_id c))), st1)
            else if nameTaken c (categories st1) then (Inl DuplicateKey, st1)
            else if c_isNew d then (Inr c, st1\<lparr>categories := categories st1 @ [c]\<rparr>)
            else (Inr c, st1\<lparr>categories := map (\<lambda>x. if c_id x = c_id c then c else x) (categories st1)\<rparr>))"

record category_body =
  cb_name :: "jsstring option"
  cb_isDefault :: "bool option"
  cb_userId :: "oid option"
  cb_order :: "nat option"

definition c_assign :: "('a \<Rightarrow> category_doc \<Rightarrow> category_doc) \<Rightarrow> 'a option \<Rightarrow> category_doc
    \<Rightarrow> category_doc" where
  "c_assign setter v d = (case v of None \<Rightarrow> d | Some x \<Rightarrow> setter x d)"

text \<open>\<open>POST /api/categories\<close> builds the document from the keys it names.\<close>

definition nextOrder :: "oid \<Rightarrow> Category list \<Rightarrow> nat" where
  "nextOrder uid cs =
     (case filter (\<lambda>c. c_userId c = uid) cs of
        [] \<Rightarrow> 0
      | c # rest \<Rightarrow> Suc (fold max (map c_order rest) (c_order c)))"

definition createCategory :: "env \<Rightarrow> oid \<Rightarrow> oid \<Rightarrow> category_body \<Rightarrow> store
    \<Rightarrow> Category response \<times> store" where
  "createCategory env uid newId body st =
     (if \<not> bounded 1 50 (cb_name body)
      then (respond 400 False ''Validation failed'' None, st)
      else if dbFails env (Category_findOne uid)
      then (respond 500 False ''Server error creating category'' None, st)
      else
        let name = trim (case cb_name body of None \<Rightarrow> [] | Some n \<Rightarrow> n) in
        if list_ex (\<lambda>c. c_userId c = uid \<and> c_name c = name) (categories st)
        then (respond 400 False ''Category with this name already exists'' None, st)
        else
          let d = \<lparr>cdoc = \<lparr>c_id = newId, c_name = name, c_userId = uid,
                            isDefault = (case cb_isDefault body of None \<Rightarrow> False | Some v \<Rightarrow> v),
                            c_order = nextOrder uid (categories st)\<rparr>,
                   c_isNew = True, c_modified = {P_name, P_owner, P_isDefault, P_order}\<rparr>
          in case category_save env d st of
               (Inl e, st') \<Rightarrow> (respond 500 False ''Server error creating category'' None, st')
             | (Inr c, st') \<Rightarrow> (respond 201 True ''Category created successfully'' (Some c), st'))"

text \<open>\<open>PUT /api/categories/:id\<close> copies every key of the body onto the document.\<close>

definition c_assign_body :: "category_body \<Rightarrow> category_doc \<Rightarrow> category_doc" where
  "c_assign_body b d =
     c_assign set_order (cb_order b)
      (c_assign set_owner (cb_userId b)
        (c_assign set_isDefault (cb_isDefault b)
          (c_assign set_name (cb_name b) d)))"

definition updateCategory :: "env \<Rightarrow> oid \<Rightarrow> oid \<Rightarrow> category_body \<Rightarrow> store
    \<Rightarrow> Category response \<times> store" where
  "updateCategory env uid cid body st =
     (if \<not> optional 1 50 (cb_name body)
      then (respond 400 False ''Validation failed'' None, st)
      else if dbFails env (Category_findOne uid)
      then (respond 500 False ''Server error updating category'' None, st)
      else
        case find (\<lambda>c. c_id c = cid \<and> c_userId c = uid) (categories st) of
          None \<Rightarrow> (respond 404 False ''Category not found'' None, st)
        | Some found \<Rightarrow>
            if (case cb_name body of
                  None \<Rightarrow> False
                | Some n \<Rightarrow> trim n \<noteq> c_name found \<and>
                    list_ex (\<lambda>c. c_userId c = uid \<and> c_name c = trim n \<and> c_id c \<noteq> cid) (categories st))
            then (respond 400 False ''Category with this name already exists'' None, st)
            else
              case category_save env
                     (c_assign_body body \<lparr>cdoc = found, c_isNew = False, c_modified = {}\<rparr>) st of
                (Inl e, st') \<Rightarrow> (respond 500 False ''Server error updating category'' None, st')
              | (Inr c, st') \<Rightarrow> (respond 200 True ''Category updated successfully'' (Some c), st'))"

text \<open>Decimal digits of a count, for the message of a refused deletion.\<close>

function decimal :: "nat \<Rightarrow> string" where
  "decimal n = (if n < 10 then [digit (int n)] else decimal (n div 10) @ [digit (int n)])"
  by pat_completeness auto
termination
  by (relation "measure id") auto

text \<open>\<open>DELETE /api/categories/:id\<close>.\<close>

definition tasksInCategory :: "oid \<Rightarrow> Category \<Rightarrow> store \<Rightarrow> nat" where
  "tasksInCategory uid c st =
     length (filter (\<lambda>t. userId t = uid \<and> category t = c_name c) (tasks st))"

definition deleteCategory :: "env \<Rightarrow> oid \<Rightarrow> oid \<Rightarrow> store \<Rightarrow> unit response \<times> store" where
  "deleteCategory env uid cid st =
     (if dbFails env (Category_findOne uid)
      then (respond 500 False ''Server error deleting category'' None, st)
      else
        case find (\<lambda>c. c_id c = cid \<and> c_userId c = uid) (categories st) of
          None \<Rightarrow> (respond 404 False ''Category not found'' None, st)
        | Some c \<Rightarrow>
            if dbFails env (Task_countDocuments uid)
            then (respond 500 False ''Server error deleting category'' None, st)
            else if tasksInCategory uid c st > 0
            then (respond 400 False
                    (''Cannot delete category. It contains '' @ decimal (tasksInCategory uid c st) @
                     '' task(s). Please move or delete the tasks first.'') None, st)
            else if dbFails env (Category_findByIdAndDelete cid)
            then (respond 500 False ''Server error deleting category'' None, st)
            else (respond 200 True ''Category deleted successfully'' None,
                  st\<lparr>categories := filter (\<lambda>x. c_id x \<noteq> cid) (categories st)\<rparr>))"

section \<open>Observations on a scan\<close>



text \<open>What the scan's \<open>save\<close> writes: the document of the task's \<open>_id\<close> with its
  \<open>reminderDate\<close> null.\<close>

definition clearReminder :: "Task \<Rightarrow> Task list \<Rightarrow> Task list" where
  "clearReminder t ts = map (\<lambda>x. if t_id x = t_id t then t\<lparr>reminderDate := None\<rparr> else x) ts"

text \<open>The scan's \<open>save\<close> of a task fails when the task's document does not pass the
  schema's validation, or when the store rejects the write.\<close>

definition saveFails :: "env \<Rightarrow> Task \<Rightarrow> bool" where
  "saveFails env t = (\<not> task_valid (loaded t) \<or> dbFails env (Task_save (t_id t)))"

definition saveError :: "env \<Rightarrow> Task \<Rightarrow> db_error" where
  "saveError env t =
     (if \<not> task_valid (loaded t) then ValidationError else Rejected (Task_save (t_id t)))"

section \<open>One user's turn in a batch job\<close>

text \<open>The body of the daily job's loop for one user, once the user's tasks are found, and
  the body of the weekly job's loop for one user.\<close>

definition dueSoonRun :: "env \<Rightarrow> time \<Rightarrow> store \<Rightarrow> User \<Rightarrow> event list" where
  "dueSoonRun env tomorrow st user =
     (if dueSoonTasks (u_id user) tomorrow st \<noteq> []
      then sendTaskDueSoonNotification env user (dueSoonTasks (u_id user) tomorrow st) else [])"

definition weeklyRun :: "env \<Rightarrow> time \<Rightarrow> store \<Rightarrow> User \<Rightarrow> event list" where
  "weeklyRun env oneWeekAgo st user =
     (case generateWeeklyStats env (u_id user) oneWeekAgo st of
        Inl e \<Rightarrow> [JobError e]
      | Inr weeklyStats \<Rightarrow> sendWeeklySummary env user weeklyStats)"

section \<open>Example states\<close>

text \<open>A task due on 2024-01-10 at 10:00 UTC, with its reminder at 09:00. Titles and
  names are spelled in code units: ``Report'' and ``Work'' here, and below ``Call'',
  ``Home'', ``Walk'', ``Taxes'' and ``Spare''.\<close>

definition morningTask :: Task where
  "morningTask = \<lparr>t_id = 1, title = [82, 101, 112, 111, 114, 116], completed = False, category = [87, 111, 114, 107],
     dueDate = Some 1704880800000, reminderDate = Some 1704877200000, userId = 1,
     completedAt = None, createdAt = 1704800000000\<rparr>"

definition morningStore :: store where
  "morningStore = \<lparr>users = [], tasks = [morningTask], categories = []\<rparr>"

text \<open>Two users, one with mail notifications on and one with them off, each with a
  reminder at 09:00; an environment where everything works, and one where every mail
  is rejected.\<close>

definition alice :: User where
  "alice = \<lparr>u_id = 1, u_name = ''Alice'', email = ''alice@example.org'',
     preferences = \<lparr>emailNotifications = True\<rparr>\<rparr>"

definition bob :: User where
  "bob = \<lparr>u_id = 2, u_name = ''Bob'', email = ''bob@example.org'',
     preferences = \<lparr>emailNotifications = False\<rparr>\<rparr>"

definition bobTask :: Task where
  "bobTask = \<lparr>t_id = 2, title = [67, 97, 108, 108], completed = False, category = [72, 111, 109, 101],
     dueDate = Some 1704880800000, reminderDate = Some 1704877200000, userId = 2,
     completedAt = None, createdAt = 1704800000000\<rparr>"

definition officeStore :: store where
  "officeStore = \<lparr>users = [alice, bob], tasks = [morningTask, bobTask], categories = []\<rparr>"

definition calmEnv :: env where
  "calmEnv = \<lparr>transporter = True, sendMailFails = (\<lambda>a m. False), dbFails = (\<lambda>c. False)\<rparr>"

definition deafEnv :: env where
  "deafEnv = \<lparr>transporter = True, sendMailFails = (\<lambda>a m. True), dbFails = (\<lambda>c. False)\<rparr>"

text \<open>A completed task of user 1, by its \<open>_id\<close> and the time it was completed.\<close>

definition done_on :: "oid \<Rightarrow> time \<Rightarrow> Task" where
  "done_on i c = \<lparr>t_id = i, title = [87, 97, 108, 107], completed = True, category = [72, 111, 109, 101],
     dueDate = None, reminderDate = None, userId = 1, completedAt = Some c,
     createdAt = 1704000000000\<rparr>"

text \<open>Four completions of user 1 on three days: 8 January 2024 at 09:00 and at 17:00,
  9 January at 00:00 and 10 January at 09:00 (all UTC).\<close>

definition weekStore :: store where
  "weekStore = \<lparr>users = [alice],
     tasks = [done_on 11 1704704400000, done_on 12 1704733200000,
              done_on 13 1704758400000, done_on 14 1704877200000, bobTask],
     categories = []\<rparr>"

text \<open>A third user, with notifications on and a task due.\<close>

definition carol :: User where
  "carol = \<lparr>u_id = 3, u_name = ''Carol'', email = ''carol@example.org'',
     preferences = \<lparr>emailNotifications = True\<rparr>\<rparr>"

definition carolTask :: Task where
  "carolTask = \<lparr>t_id = 3, title = [84, 97, 120, 101, 115], completed = False, category = [72, 111, 109, 101],
     dueDate = Some 1704880800000, reminderDate = Some 1704877200000, userId = 3,
     completedAt = None, createdAt = 1704800000000\<rparr>"

definition teamStore :: store where
  "teamStore = \<lparr>users = [alice, bob, carol], tasks = [morningTask, bobTask, carolTask],
     categories = []\<rparr>"

text \<open>The store rejects the per-user queries of user 1, and nothing else.\<close>

definition brokenEnv :: env where
  "brokenEnv = \<lparr>transporter = True, sendMailFails = (\<lambda>a m. False),
     dbFails = (\<lambda>c. c = Task_find (Some 1) \<or> c = Task_countDocuments 1)\<rparr>"


text \<open>A store without tasks, the request that creates the task above, and a request
  body with no key.\<close>

definition emptyStore :: store where
  "emptyStore = \<lparr>users = [alice], tasks = [], categories = []\<rparr>"

definition reportBody :: task_body where
  "reportBody = \<lparr>b_title = Some [82, 101, 112, 111, 114, 116], b_completed = None, b_category = Some [87, 111, 114, 107],
     b_dueDate = Some 1704880800000, b_reminderDate = None, b_completedAt = None,
     b_userId = None\<rparr>"

definition noBody :: task_body where
  "noBody = \<lparr>b_title = None, b_completed = None, b_category = None, b_dueDate = None,
     b_reminderDate = None, b_completedAt = None, b_userId = None\<rparr>"


text \<open>Categories: Alice's default ``Work'', which her task uses, her unused ``Spare'',
  and Bob's default ``Home''.\<close>

definition workCategory :: Category where
  "workCategory = \<lparr>c_id = 10, c_name = [87, 111, 114, 107], c_userId = 1, isDefault = True, c_order = 0\<rparr>"

definition spareCategory :: Category where
  "spareCategory = \<lparr>c_id = 11, c_name = [83, 112, 97, 114, 101], c_userId = 1, isDefault = False, c_order = 1\<rparr>"

definition homeCategory :: Category where
  "homeCategory = \<lparr>c_id = 20, c_name = [72, 111, 109, 101], c_userId = 2, isDefault = True, c_order = 0\<rparr>"

definition filedStore :: store where
  "filedStore = \<lparr>users = [alice, bob], tasks = [morningTask, bobTask],
     categories = [workCategory, spareCategory, homeCategory]\<rparr>"

text \<open>A request body whose only key is \<open>userId\<close>, naming Bob.\<close>

definition moveBody :: category_body where
  "moveBody = \<lparr>cb_name = None, cb_isDefault = None, cb_userId = Some 2, cb_order = None\<rparr>"



text \<open>A request that moves the due date of the task \<open>morningTask\<close> to 10:00 on 2024-01-11,
  and the task it leaves.\<close>

definition postponeBody :: task_body where
  "postponeBody = \<lparr>b_title = None, b_completed = None, b_category = None,
     b_dueDate = Some 1704967200000, b_reminderDate = None, b_completedAt = None,
     b_userId = None\<rparr>"

definition postponedTask :: Task where
  "postponedTask = morningTask\<lparr>dueDate := Some 1704967200000, reminderDate := Some 1704963600000\<rparr>"

section \<open>The scan's loop\<close>

lemma scan_save:
  "task_save env now (set_reminderDate None (loaded t)) st =
     (if saveFails env t then Inl (saveError env t)
      else Inr (t\<lparr>reminderDate := None\<rparr>, st\<lparr>tasks := clearReminder t (tasks st)\<rparr>))"
  by (simp add: task_save_def task_valid_def task_pre_save_def set_reminderDate_def loaded_def
      mark_def isModified_def clearReminder_def saveFails_def saveError_def Let_def)

lemma remindLoop_step:
  "remindLoop env now ((t, owner) # xs) st log =
     (case owner of
        None \<Rightarrow> remindLoop env now xs st log
      | Some u \<Rightarrow>
          if emailNotifications (preferences u) then
            (if saveFails env t
             then (st, log @ sendTaskReminder env u t @ [JobError (saveError env t)])
             else remindLoop env now xs (st\<lparr>tasks := clearReminder t (tasks st)\<rparr>)
                    (log @ sendTaskReminder env u t))
          else remindLoop env now xs st log)"
  by (simp add: scan_save Let_def split: option.splits)

declare remindLoop.simps(2) [simp del]

lemma remindLoop_log:
  "snd (remindLoop env now xs st log) = log @ snd (remindLoop env now xs st [])"
proof (induction xs arbitrary: st log)
  case Nil
  show ?case by simp
next
  case (Cons p xs)
  obtain t owner where p: "p = (t, owner)" by (cases p)
  show ?case
  proof (cases owner)
    case None
    with p Cons.IH [of st log] show ?thesis by (simp add: remindLoop_step)
  next
    case (Some u)
    let ?st1 = "st\<lparr>tasks := clearReminder t (tasks st)\<rparr>"
    from Cons.IH [of ?st1 "log @ sendTaskReminder env u t"] Cons.IH [of ?st1 "sendTaskReminder env u t"]
      Cons.IH [of st log]
    show ?thesis using p Some by (simp add: remindLoop_step)
  qed
qed

lemma remindLoop_users: "users (fst (remindLoop env now xs st log)) = users st"
proof (induction xs arbitrary: st log)
  case Nil
  show ?case by simp
next
  case (Cons p xs)
  obtain t owner where p: "p = (t, owner)" by (cases p)
  show ?case using p Cons.IH
    by (cases owner) (simp_all add: remindLoop_step)
qed

lemma sendTaskReminder_no_error: "JobError err \<notin> set (sendTaskReminder env u t)"
  by (simp add: sendTaskReminder_def sendMail_def)

lemma remindLoop_origin:
  "e \<in> set (snd (remindLoop env now xs st [])) \<Longrightarrow>
     (\<exists>err. e = JobError err) \<or>
     (\<exists>t u. (t, Some u) \<in> set xs \<and> emailNotifications (preferences u) \<and>
        e \<in> set (sendTaskReminder env u t) \<and>
        set (sendTaskReminder env u t) \<subseteq> set (snd (remindLoop env now xs st [])))"
proof (induction xs arbitrary: st)
  case Nil
  then show ?case by simp
next
  case (Cons p xs)
  obtain t owner where p: "p = (t, owner)" by (cases p)
  let ?st1 = "st\<lparr>tasks := clearReminder t (tasks st)\<rparr>"
  show ?case
  proof (cases owner)
    case None
    with p have same: "remindLoop env now (p # xs) st [] = remindLoop env now xs st []"
      by (simp add: remindLoop_step)
    with Cons.prems have "e \<in> set (snd (remindLoop env now xs st []))" by simp
    from Cons.IH [OF this] show ?thesis unfolding same by auto
  next
    case (Some u)
    show ?thesis
    proof (cases "emailNotifications (preferences u)")
      case False
      with p Some have same: "remindLoop env now (p # xs) st [] = remindLoop env now xs st []"
        by (simp add: remindLoop_step)
      with Cons.prems have "e \<in> set (snd (remindLoop env now xs st []))" by simp
      from Cons.IH [OF this] show ?thesis unfolding same by auto
    next
      case True
      have block: "set (sendTaskReminder env u t) \<subseteq> set (snd (remindLoop env now (p # xs) st []))"
        and rest: "\<not> saveFails env t \<Longrightarrow>
          set (snd (remindLoop env now xs ?st1 [])) \<subseteq> set (snd (remindLoop env now (p # xs) st []))"
        using True p Some remindLoop_log [of env now xs ?st1 "sendTaskReminder env u t"]
        by (auto simp: remindLoop_step)
      have "e \<in> set (sendTaskReminder env u t) \<or> (\<exists>err. e = JobError err) \<or>
            (\<not> saveFails env t \<and> e \<in> set (snd (remindLoop env now xs ?st1 [])))"
        using True p Some Cons.prems remindLoop_log [of env now xs ?st1 "sendTaskReminder env u t"]
        by (auto simp: remindLoop_step split: if_splits)
      then consider "e \<in> set (sendTaskReminder env u t)" | "\<exists>err. e = JobError err"
        | "\<not> saveFails env t" "e \<in> set (snd (remindLoop env now xs ?st1 []))"
        by blast
      then show ?thesis
      proof cases
        case 1
        with True p Some block show ?thesis by auto
      next
        case 2
        then show ?thesis by simp
      next
        case 3
        from Cons.IH [OF 3(2)] show ?thesis
        proof
          assume "\<exists>err. e = JobError err"
          then show ?thesis by simp
        next
          assume "\<exists>t' u'. (t', Some u') \<in> set xs \<and> emailNotifications (preferences u') \<and>
              e \<in> set (sendTaskReminder env u' t') \<and>
              set (sendTaskReminder env u' t') \<subseteq> set (snd (remindLoop env now xs ?st1 []))"
          then obtain t' u' where m: "(t', Some u') \<in> set xs" "emailNotifications (preferences u')"
              "e \<in> set (sendTaskReminder env u' t')"
            and sub: "set (sendTaskReminder env u' t') \<subseteq> set (snd (remindLoop env now xs ?st1 []))"
            by blast
          from sub rest [OF 3(1)]
          have "set (sendTaskReminder env u' t') \<subseteq> set (snd (remindLoop env now (p # xs) st []))"
            by (rule subset_trans)
          moreover from m(1) have "(t', Some u') \<in> set (p # xs)" by simp
          ultimately show ?thesis using m(2,3) by blast
        qed
      qed
    qed
  qed
qed

lemma clearReminder_keeps:
  "x \<in> set (clearReminder t ts) \<Longrightarrow> reminderDate x \<noteq> None \<Longrightarrow> x \<in> set ts"
  by (auto simp: clearReminder_def split: if_splits)

lemma clearReminder_cleared:
  "x \<in> set (clearReminder t ts) \<Longrightarrow> t_id x = t_id t \<Longrightarrow> reminderDate x = None"
  by (auto simp: clearReminder_def split: if_splits)

lemma remindLoop_keeps:
  "x \<in> set (tasks (fst (remindLoop env now xs st log))) \<Longrightarrow> reminderDate x \<noteq> None \<Longrightarrow>
     x \<in> set (tasks st)"
proof (induction xs arbitrary: st log)
  case Nil
  then show ?case by simp
next
  case (Cons p xs)
  obtain t owner where p: "p = (t, owner)" by (cases p)
  let ?st1 = "st\<lparr>tasks := clearReminder t (tasks st)\<rparr>"
  show ?case
  proof (cases owner)
    case None
    with p Cons.prems(1) have "x \<in> set (tasks (fst (remindLoop env now xs st log)))"
      by (simp add: remindLoop_step)
    from Cons.IH [OF this Cons.prems(2)] show ?thesis .
  next
    case (Some u)
    show ?thesis
    proof (cases "emailNotifications (preferences u) \<and> \<not> saveFails env t")
      case True
      with p Some Cons.prems(1)
      have "x \<in> set (tasks (fst (remindLoop env now xs ?st1 (log @ sendTaskReminder env u t))))"
        by (simp add: remindLoop_step)
      from Cons.IH [OF this Cons.prems(2)] have "x \<in> set (clearReminder t (tasks st))" by simp
      then show ?thesis using Cons.prems(2) by (rule clearReminder_keeps)
    next
      case False
      then consider "\<not> emailNotifications (preferences u)"
        | "emailNotifications (preferences u)" "saveFails env t" by blast
      then show ?thesis
      proof cases
        case 1
        with p Some Cons.prems(1) have "x \<in> set (tasks (fst (remindLoop env now xs st log)))"
          by (simp add: remindLoop_step)
        from Cons.IH [OF this Cons.prems(2)] show ?thesis .
      next
        case 2
        with p Some Cons.prems(1) show ?thesis by (simp add: remindLoop_step)
      qed
    qed
  qed
qed

lemma remindLoop_processed:
  assumes en: "emailNotifications (preferences u)"
  shows "\<forall>p \<in> set xs. \<not> saveFails env (fst p) \<Longrightarrow> (t, Some u) \<in> set xs \<Longrightarrow>
     set (sendTaskReminder env u t) \<subseteq> set (snd (remindLoop env now xs st log)) \<and>
     (\<forall>x \<in> set (tasks (fst (remindLoop env now xs st log))). t_id x = t_id t \<longrightarrow> reminderDate x = None)"
proof (induction xs arbitrary: st log)
  case Nil
  then show ?case by simp
next
  case (Cons p xs)
  obtain t' owner where p: "p = (t', owner)" by (cases p)
  let ?st1 = "st\<lparr>tasks := clearReminder t' (tasks st)\<rparr>"
  have ok_head: "\<not> saveFails env t'" using Cons.prems(1) p by simp
  have ok_rest: "\<forall>p \<in> set xs. \<not> saveFails env (fst p)"
    using Cons.prems(1) by simp
  show ?case
  proof (cases "p = (t, Some u)")
    case True
    let ?st2 = "st\<lparr>tasks := clearReminder t (tasks st)\<rparr>"
    let ?log2 = "log @ sendTaskReminder env u t"
    have step: "remindLoop env now (p # xs) st log = remindLoop env now xs ?st2 ?log2"
      using True en ok_head p by (simp add: remindLoop_step)
    have "set (sendTaskReminder env u t) \<subseteq> set (snd (remindLoop env now (p # xs) st log))"
      unfolding step using remindLoop_log [of env now xs ?st2 ?log2] by auto
    moreover have "reminderDate x = None"
      if x: "x \<in> set (tasks (fst (remindLoop env now (p # xs) st log)))" and i: "t_id x = t_id t" for x
    proof (rule ccontr)
      assume n: "reminderDate x \<noteq> None"
      from x have "x \<in> set (tasks (fst (remindLoop env now xs ?st2 ?log2)))" unfolding step .
      from remindLoop_keeps [OF this n] have "x \<in> set (clearReminder t (tasks st))" by simp
      from clearReminder_cleared [OF this i] n show False by simp
    qed
    ultimately show ?thesis by blast
  next
    case False
    with Cons.prems(2) have mem: "(t, Some u) \<in> set xs" by auto
    show ?thesis
    proof (cases owner)
      case None
      with p Cons.IH [OF ok_rest mem] show ?thesis by (simp add: remindLoop_step)
    next
      case (Some u')
      show ?thesis
      proof (cases "emailNotifications (preferences u')")
        case True
        then have "remindLoop env now (p # xs) st log =
            remindLoop env now xs ?st1 (log @ sendTaskReminder env u' t')"
          using p Some ok_head by (simp add: remindLoop_step)
        with Cons.IH [OF ok_rest mem] show ?thesis by simp
      next
        case False
        with p Some Cons.IH [OF ok_rest mem] show ?thesis by (simp add: remindLoop_step)
      qed
    qed
  qed
qed

lemma remindLoop_no_error:
  "\<forall>p \<in> set xs. \<not> saveFails env (fst p) \<Longrightarrow>
     JobError err \<notin> set (snd (remindLoop env now xs st []))"
proof (induction xs arbitrary: st)
  case Nil
  show ?case by simp
next
  case (Cons p xs)
  obtain t owner where p: "p = (t, owner)" by (cases p)
  let ?st1 = "st\<lparr>tasks := clearReminder t (tasks st)\<rparr>"
  have ok_head: "\<not> saveFails env t" using Cons.prems p by simp
  have ok_rest: "\<forall>p \<in> set xs. \<not> saveFails env (fst p)"
    using Cons.prems by simp
  show ?case
  proof (cases owner)
    case None
    with p Cons.IH [of st, OF ok_rest] show ?thesis by (simp add: remindLoop_step)
  next
    case (Some u)
    show ?thesis
      using p Some ok_head Cons.IH [of st, OF ok_rest] Cons.IH [of ?st1, OF ok_rest]
        remindLoop_log [of env now xs ?st1 "sendTaskReminder env u t"]
        sendTaskReminder_no_error [of err env u t]
      by (simp add: remindLoop_step)
  qed
qed

lemma clearReminder_ids: "map t_id (clearReminder t ts) = map t_id ts"
  by (induction ts) (simp_all add: clearReminder_def)

lemma remindLoop_ids:
  "map t_id (tasks (fst (remindLoop env now xs st log))) = map t_id (tasks st)"
proof (induction xs arbitrary: st log)
  case Nil
  show ?case by simp
next
  case (Cons p xs)
  obtain t owner where p: "p = (t, owner)" by (cases p)
  show ?case using p Cons.IH
    by (cases owner) (simp_all add: remindLoop_step clearReminder_ids)
qed

lemma sendTaskReminder_events:
  "e \<in> set (sendTaskReminder env u t) \<Longrightarrow>
     e = Called u (ReminderMail t) \<or>
     (emailNotifications (preferences u) \<and>
       (e = Sent (email u) (ReminderMail t) \<or> e = SendFailed (email u) (ReminderMail t)))"
  by (auto simp: sendTaskReminder_def sendMail_def split: if_splits)

lemma scan_origin:
  assumes "e \<in> set (snd (checkAndSendReminders env now st))"
  shows "(\<exists>err. e = JobError err) \<or>
     (\<exists>t u. t \<in> set (tasksToRemind now st) \<and> populate_userId st t = Some u \<and>
        emailNotifications (preferences u) \<and> e \<in> set (sendTaskReminder env u t) \<and>
        set (sendTaskReminder env u t) \<subseteq> set (snd (checkAndSendReminders env now st)))"
proof (cases "dbFails env (Task_find None)")
  case True
  with assms show ?thesis by (simp add: checkAndSendReminders_def)
next
  case False
  let ?xs = "map (\<lambda>t. (t, populate_userId st t)) (tasksToRemind now st)"
  from False have run: "checkAndSendReminders env now st = remindLoop env now ?xs st []"
    by (simp add: checkAndSendReminders_def)
  from assms have "e \<in> set (snd (remindLoop env now ?xs st []))" unfolding run .
  from remindLoop_origin [OF this] show ?thesis unfolding run by auto
qed




lemma scan_processed:
  assumes find_ok: "\<not> dbFails env (Task_find None)"
    and save_ok: "\<And>x. x \<in> set (tasksToRemind now st) \<Longrightarrow> \<not> saveFails env x"
    and sel: "t \<in> set (tasksToRemind now st)" and owner: "populate_userId st t = Some u"
    and en: "emailNotifications (preferences u)"
  shows "set (sendTaskReminder env u t) \<subseteq> set (snd (checkAndSendReminders env now st))"
    and "\<And>x. x \<in> set (tasks (fst (checkAndSendReminders env now st))) \<Longrightarrow> t_id x = t_id t \<Longrightarrow>
          reminderDate x = None"
    and "t_id t \<in> t_id ` set (tasks (fst (checkAndSendReminders env now st)))"
    and "JobError err \<notin> set (snd (checkAndSendReminders env now st))"
proof -
  let ?xs = "map (\<lambda>t. (t, populate_userId st t)) (tasksToRemind now st)"
  have run: "checkAndSendReminders env now st = remindLoop env now ?xs st []"
    using find_ok by (simp add: checkAndSendReminders_def)
  have mem: "(t, Some u) \<in> set ?xs" using sel owner by force
  have ok: "\<forall>p \<in> set ?xs. \<not> saveFails env (fst p)"
    using save_ok by auto
  from remindLoop_processed [where now = now and st = st and log = "[]", OF en ok mem]
  show "set (sendTaskReminder env u t) \<subseteq> set (snd (checkAndSendReminders env now st))"
    and "\<And>x. x \<in> set (tasks (fst (checkAndSendReminders env now st))) \<Longrightarrow> t_id x = t_id t \<Longrightarrow>
          reminderDate x = None"
    unfolding run by blast+
  have "t \<in> set (tasks st)" using sel by (simp add: tasksToRemind_def)
  then have "t_id t \<in> set (map t_id (tasks st))" by simp
  then show "t_id t \<in> t_id ` set (tasks (fst (checkAndSendReminders env now st)))"
    unfolding run using remindLoop_ids [of env now ?xs st "[]"] by (metis list.set_map)
  show "JobError err \<notin> set (snd (checkAndSendReminders env now st))"
    unfolding run by (rule remindLoop_no_error [OF ok])
qed

lemma office_selected:
  "morningTask \<in> set (tasksToRemind 1704876600000 officeStore)"
  "bobTask \<in> set (tasksToRemind 1704876600000 officeStore)"
  by (simp_all add: tasksToRemind_def reminderQuery_def reminderWindow_def officeStore_def
      morningTask_def bobTask_def)

lemma office_owner:
  "populate_userId officeStore morningTask = Some alice"
  "populate_userId officeStore bobTask = Some bob"
  by (simp_all add: populate_userId_def officeStore_def morningTask_def bobTask_def alice_def bob_def)

lemma tasksToRemind_iff:
  "t \<in> set (tasksToRemind now st) \<longleftrightarrow>
     t \<in> set (tasks st) \<and> completed t = False \<and>
     (\<exists>r. reminderDate t = Some r \<and> now \<le> r \<and> r \<le> now + 15 * 60 * 1000)"
  by (auto simp: tasksToRemind_def reminderQuery_def reminderWindow_def split: option.splits)

lemma tasksToRemind_filter:
  "tasksToRemind now st =
     filter (\<lambda>t. completed t = False \<and>
               (\<exists>r. reminderDate t = Some r \<and> now \<le> r \<and> r \<le> now + 15 * 60 * 1000))
       (tasks st)"
  unfolding tasksToRemind_def
  by (rule filter_cong)
     (auto simp: reminderQuery_def reminderWindow_def split: option.splits)

lemma office_saves:
  "\<forall>x \<in> set (tasksToRemind now officeStore).
     task_valid (loaded x) \<and> \<not> dbFails calmEnv (Task_save (t_id x))"
proof
  fix x assume "x \<in> set (tasksToRemind now officeStore)"
  then have "x \<in> set (tasks officeStore)" by (simp add: tasksToRemind_iff)
  then have "x = morningTask \<or> x = bobTask" by (auto simp add: officeStore_def)
  then show "task_valid (loaded x) \<and> \<not> dbFails calmEnv (Task_save (t_id x))"
    by (auto simp add: task_valid_def loaded_def calmEnv_def morningTask_def bobTask_def)
qed

section \<open>The reminder scan's selection\<close>

text \<open>
  Claim C1. When the store answers its query, the scan at time \<open>now\<close> runs its loop over
  exactly the stored tasks that are incomplete and whose \<open>reminderDate\<close> lies between
  \<open>now\<close> and \<open>now\<close> plus 15 minutes, both ends included, in the order of the store, each
  with its owner. In any run, the reminder dispatcher is called only for such tasks; and
  when the save of each selected task succeeds (its document passes the schema's
  validation and the store accepts the write), it is called for a stored task whose
  owner has notifications enabled if and only if the task is such a task.
\<close>

theorem reminder_scan_selects:
  assumes "checkAndSendReminders env now st = (st', log)"
  shows "(\<not> dbFails env (Task_find None) \<longrightarrow>
        (st', log) =
          remindLoop env now
            (map (\<lambda>t. (t, populate_userId st t))
               (filter (\<lambda>t. completed t = False \<and>
                          (\<exists>r. reminderDate t = Some r \<and> now \<le> r \<and> r \<le> now + 15 * 60 * 1000))
                  (tasks st))) st []) \<and>
     (\<forall>u t. Called u (ReminderMail t) \<in> set log \<longrightarrow>
        t \<in> set (tasks st) \<and> completed t = False \<and>
        (\<exists>r. reminderDate t = Some r \<and> now \<le> r \<and> r \<le> now + 15 * 60 * 1000)) \<and>
     (\<not> dbFails env (Task_find None) \<and> (\<forall>x \<in> set (tasksToRemind now st). task_valid (loaded x) \<and> \<not> dbFails env (Task_save (t_id x))) \<longrightarrow>
        (\<forall>t \<in> set (tasks st). \<forall>u.
           populate_userId st t = Some u \<and> emailNotifications (preferences u) \<longrightarrow>
           (Called u (ReminderMail t) \<in> set log \<longleftrightarrow>
              completed t = False \<and>
              (\<exists>r. reminderDate t = Some r \<and> now \<le> r \<and> r \<le> now + 15 * 60 * 1000))))"
proof (intro conjI impI allI ballI)
  assume "\<not> dbFails env (Task_find None)"
  with assms show "(st', log) =
          remindLoop env now
            (map (\<lambda>t. (t, populate_userId st t))
               (filter (\<lambda>t. completed t = False \<and>
                          (\<exists>r. reminderDate t = Some r \<and> now \<le> r \<and> r \<le> now + 15 * 60 * 1000))
                  (tasks st))) st []"
    by (simp add: checkAndSendReminders_def tasksToRemind_filter)
next
  fix u t
  assume c: "Called u (ReminderMail t) \<in> set log"
  have log: "log = snd (checkAndSendReminders env now st)" using assms by simp
  from scan_origin [OF c [unfolded log]] obtain t' u' where
    sel: "t' \<in> set (tasksToRemind now st)"
    and ev: "Called u (ReminderMail t) \<in> set (sendTaskReminder env u' t')"
    by auto
  from sendTaskReminder_events [OF ev] have "t = t'" by auto
  with sel have s: "t \<in> set (tasksToRemind now st)" by simp
  from s show "t \<in> set (tasks st)" by (simp add: tasksToRemind_iff)
  from s show "completed t = False" by (simp add: tasksToRemind_iff)
  from s show "\<exists>r. reminderDate t = Some r \<and> now \<le> r \<and> r \<le> now + 15 * 60 * 1000"
    by (simp add: tasksToRemind_iff)
next
  fix t u
  assume ok: "\<not> dbFails env (Task_find None) \<and> (\<forall>x \<in> set (tasksToRemind now st). task_valid (loaded x) \<and> \<not> dbFails env (Task_save (t_id x)))"
    and t: "t \<in> set (tasks st)"
    and o: "populate_userId st t = Some u \<and> emailNotifications (preferences u)"
  have log: "log = snd (checkAndSendReminders env now st)" using assms by simp
  show "Called u (ReminderMail t) \<in> set log \<longleftrightarrow>
      completed t = False \<and> (\<exists>r. reminderDate t = Some r \<and> now \<le> r \<and> r \<le> now + 15 * 60 * 1000)"
  proof
    assume c: "Called u (ReminderMail t) \<in> set log"
    from scan_origin [OF c [unfolded log]] obtain t' u' where
      sel: "t' \<in> set (tasksToRemind now st)"
      and ev: "Called u (ReminderMail t) \<in> set (sendTaskReminder env u' t')"
      by auto
    from sendTaskReminder_events [OF ev] have "t = t'" by auto
    with sel show "completed t = False \<and>
        (\<exists>r. reminderDate t = Some r \<and> now \<le> r \<and> r \<le> now + 15 * 60 * 1000)"
      by (simp add: tasksToRemind_iff)
  next
    assume "completed t = False \<and>
        (\<exists>r. reminderDate t = Some r \<and> now \<le> r \<and> r \<le> now + 15 * 60 * 1000)"
    with t have sel: "t \<in> set (tasksToRemind now st)" by (simp add: tasksToRemind_iff)
    have save_ok: "\<And>x. x \<in> set (tasksToRemind now st) \<Longrightarrow> \<not> saveFails env x"
      using ok by (simp add: saveFails_def)
    from ok have find_ok: "\<not> dbFails env (Task_find None)" by simp
    from o have own: "populate_userId st t = Some u" and en: "emailNotifications (preferences u)"
      by simp_all
    from scan_processed(1) [OF find_ok save_ok sel own en]
    show "Called u (ReminderMail t) \<in> set log"
      unfolding log by (auto simp: sendTaskReminder_def)
  qed
qed

text \<open>The reminder of 09:00: the scan of 08:50 calls the dispatcher for it, the scan of
  08:40 does not.\<close>

theorem reminder_scan_selects_example:
  "morningTask \<in> set (tasks officeStore) \<and>
   populate_userId officeStore morningTask = Some alice \<and>
   reminderDate morningTask = Some 1704877200000 \<and>
   Called alice (ReminderMail morningTask)
     \<in> set (snd (checkAndSendReminders calmEnv 1704876600000 officeStore)) \<and>
   Called alice (ReminderMail morningTask)
     \<notin> set (snd (checkAndSendReminders calmEnv 1704876000000 officeStore))"
proof -
  have f: "\<not> dbFails calmEnv (Task_find None)" by (simp add: calmEnv_def)
  have m: "morningTask \<in> set (tasks officeStore)" by (simp add: officeStore_def)
  have en: "emailNotifications (preferences alice)" by (simp add: alice_def)
  have r: "reminderDate morningTask = Some 1704877200000" by (simp add: morningTask_def)
  have c: "completed morningTask = False" by (simp add: morningTask_def)
  have run: "checkAndSendReminders calmEnv now officeStore =
      (fst (checkAndSendReminders calmEnv now officeStore),
       snd (checkAndSendReminders calmEnv now officeStore))" for now by simp
  have ok: "\<not> dbFails calmEnv (Task_find None) \<and>
      (\<forall>x \<in> set (tasksToRemind now officeStore).
         task_valid (loaded x) \<and> \<not> dbFails calmEnv (Task_save (t_id x)))" for now
    using f office_saves by blast
  have own: "populate_userId officeStore morningTask = Some alice \<and>
      emailNotifications (preferences alice)"
    using office_owner(1) en by blast
  have iff: "Called alice (ReminderMail morningTask)
        \<in> set (snd (checkAndSendReminders calmEnv now officeStore)) \<longleftrightarrow>
      completed morningTask = False \<and>
      (\<exists>r. reminderDate morningTask = Some r \<and> now \<le> r \<and> r \<le> now + 15 * 60 * 1000)" for now
    using reminder_scan_selects [OF run [of now]] ok [of now] m own by blast
  have a: "Called alice (ReminderMail morningTask)
        \<in> set (snd (checkAndSendReminders calmEnv 1704876600000 officeStore))"
    unfolding iff using r c by simp
  have b: "Called alice (ReminderMail morningTask)
        \<notin> set (snd (checkAndSendReminders calmEnv 1704876000000 officeStore))"
    unfolding iff using r c by simp
  from m office_owner(1) r a b show ?thesis by blast
qed

section \<open>A dispatched reminder is cleared\<close>




section \<open>No reminder for a user who turned mail off\<close>

text \<open>
  Claim C3. In the log of a scan, every call of the reminder dispatcher is for a user
  whose \<open>emailNotifications\<close> flag is true, and every mail sent or attempted goes to the
  address of such a stored user, inside such a call. So a selected task whose owner has
  the flag false gets no reminder dispatched.
\<close>

theorem scan_never_dispatches_when_disabled:
  assumes "checkAndSendReminders env now st = (st', log)"
  shows "(\<forall>u m. Called u m \<in> set log \<longrightarrow> emailNotifications (preferences u)) \<and>
     (\<forall>a m. Sent a m \<in> set log \<or> SendFailed a m \<in> set log \<longrightarrow>
        (\<exists>u \<in> set (users st). email u = a \<and> emailNotifications (preferences u) \<and> Called u m \<in> set log))"
proof -
  have log: "log = snd (checkAndSendReminders env now st)" using assms by simp
  have origin: "\<exists>t u. t \<in> set (tasksToRemind now st) \<and> populate_userId st t = Some u \<and>
        emailNotifications (preferences u) \<and> e \<in> set (sendTaskReminder env u t) \<and>
        set (sendTaskReminder env u t) \<subseteq> set log"
    if "e \<in> set log" "\<And>err. e \<noteq> JobError err" for e
    using scan_origin [of e env now st] that unfolding log by blast
  have stored: "u \<in> set (users st)" if "populate_userId st t = Some u" for t u
    using that by (auto simp: populate_userId_def find_Some_iff)
  have called: "Called u m \<in> set log \<Longrightarrow> emailNotifications (preferences u)" for u m
    using origin [of "Called u m"] by (auto dest: sendTaskReminder_events)
  have mailed: "\<exists>u \<in> set (users st). email u = a \<and> emailNotifications (preferences u) \<and>
      Called u m \<in> set log" if e: "e \<in> set log" and m: "e = Sent a m \<or> e = SendFailed a m" for e a m
  proof -
    from m have "\<And>err. e \<noteq> JobError err" by auto
    from origin [OF e this] obtain t u where
      u: "populate_userId st t = Some u" "emailNotifications (preferences u)"
      and ev: "e \<in> set (sendTaskReminder env u t)"
      and all: "set (sendTaskReminder env u t) \<subseteq> set log"
      by blast
    from sendTaskReminder_events [OF ev] m have "a = email u" "m = ReminderMail t" by auto
    moreover have "Called u (ReminderMail t) \<in> set log"
      using all by (auto simp: sendTaskReminder_def)
    ultimately show ?thesis using u stored by blast
  qed
  from called mailed show ?thesis by blast
qed

text \<open>Bob has the flag off: his task is selected by the scan of 08:50, and the
  dispatcher is not called for him.\<close>

theorem scan_never_dispatches_when_disabled_example:
  "bobTask \<in> set (tasksToRemind 1704876600000 officeStore) \<and>
   populate_userId officeStore bobTask = Some bob \<and>
   emailNotifications (preferences bob) = False \<and>
   (\<forall>m. Called bob m \<notin> set (snd (checkAndSendReminders calmEnv 1704876600000 officeStore)))"
proof -
  have h: "checkAndSendReminders calmEnv 1704876600000 officeStore =
      (fst (checkAndSendReminders calmEnv 1704876600000 officeStore),
       snd (checkAndSendReminders calmEnv 1704876600000 officeStore))" by simp
  have off: "emailNotifications (preferences bob) = False" by (simp add: bob_def)
  from scan_never_dispatches_when_disabled [OF h] off
  have "\<forall>m. Called bob m \<notin> set (snd (checkAndSendReminders calmEnv 1704876600000 officeStore))"
    by blast
  with office_selected(2) office_owner(2) off show ?thesis by blast
qed

section \<open>A reminder whose delivery failed is not retried\<close>




section \<open>The streak of the weekly summary\<close>

lemma set_completionDays:
  "set (concat (map completionDay ts)) = dateToString ` {c. \<exists>t \<in> set ts. completedAt t = Some c}"
  by (induction ts) (auto simp: completionDay_def split: option.splits)

text \<open>
  Claim C8. The \<open>streak\<close> of the weekly summary is the number of distinct date strings
  (year, month and day of \<open>completedAt\<close>, in UTC) among the user's completed tasks whose
  \<open>completedAt\<close> is at or after the start of the window, however many tasks share a day.
\<close>

theorem weekly_streak_counts_days:
  assumes "generateWeeklyStats env uid startDate st = Inr s"
  shows "streak s = card (dateToString `
      {c. \<exists>t \<in> set (tasks st). userId t = uid \<and> completed t = True \<and> completedAt t = Some c \<and>
            startDate \<le> c})"
proof -
  have "streak s = length (recentDays uid startDate st)"
    using assms by (auto simp: generateWeeklyStats_def split: if_splits)
  also have "\<dots> = card (set (concat (map completionDay
      (filter (completedSince uid startDate) (tasks st)))))"
    unfolding recentDays_def by (rule length_remdups_card_conv)
  also have "set (concat (map completionDay (filter (completedSince uid startDate) (tasks st)))) =
      dateToString ` {c. \<exists>t \<in> set (tasks st). userId t = uid \<and> completed t = True \<and>
        completedAt t = Some c \<and> startDate \<le> c}"
    unfolding set_completionDays
    by (rule arg_cong [where f = "image dateToString"]) (auto simp: completedSince_def)
  finally show ?thesis .
qed

text \<open>Four completions on three distinct days give a streak of 3.\<close>

lemma weekStore_stats:
  "generateWeeklyStats calmEnv 1 1704400000000 weekStore =
     Inr \<lparr>completedTasks = 4, createdTasks = 0, streak = 3\<rparr>"
  by code_simp

theorem weekly_streak_counts_days_example:
  "generateWeeklyStats calmEnv 1 1704400000000 weekStore =
     Inr \<lparr>completedTasks = 4, createdTasks = 0, streak = 3\<rparr> \<and>
   card (dateToString `
      {c. \<exists>t \<in> set (tasks weekStore). userId t = 1 \<and> completed t = True \<and> completedAt t = Some c \<and>
            1704400000000 \<le> c}) = 3"
proof -
  have "card (dateToString `
      {c. \<exists>t \<in> set (tasks weekStore). userId t = 1 \<and> completed t = True \<and> completedAt t = Some c \<and>
            1704400000000 \<le> c}) = streak \<lparr>completedTasks = 4, createdTasks = 0, streak = 3\<rparr>"
    by (rule weekly_streak_counts_days [OF weekStore_stats, symmetric])
  also have "\<dots> = 3" by simp
  finally show ?thesis using weekStore_stats by (simp only: simp_thms)
qed

section \<open>Batch jobs and failures\<close>

text \<open>With the per-user queries answered, the loops take every user's turn.\<close>

lemma dailyLoop_all:
  assumes "\<And>i. \<not> dbFails env (Task_find (Some i))"
  shows "dailyLoop env tomorrow st us = concat (map (dueSoonRun env tomorrow st) us)"
  using assms by (induction us) (simp_all add: dueSoonRun_def)

lemma weeklyLoop_all:
  assumes "\<And>i. \<not> dbFails env (Task_countDocuments i)" and "\<And>i. \<not> dbFails env (Task_aggregate i)"
  shows "weeklyLoop env oneWeekAgo st us = concat (map (weeklyRun env oneWeekAgo st) us)"
  using assms by (induction us) (simp_all add: weeklyRun_def generateWeeklyStats_def)

lemma dailyLoop_stops:
  assumes "dbFails env (Task_find (Some (u_id user)))"
    and "\<And>v. v \<in> set before \<Longrightarrow> \<not> dbFails env (Task_find (Some (u_id v)))"
  shows "dailyLoop env tomorrow st (before @ user # rest) =
     concat (map (dueSoonRun env tomorrow st) before) @
     [JobError (Rejected (Task_find (Some (u_id user))))]"
  using assms by (induction before) (simp_all add: dueSoonRun_def)

lemma weeklyLoop_stops:
  assumes "generateWeeklyStats env (u_id user) oneWeekAgo st = Inl e"
    and "\<And>v. v \<in> set before \<Longrightarrow> \<exists>s. generateWeeklyStats env (u_id v) oneWeekAgo st = Inr s"
  shows "weeklyLoop env oneWeekAgo st (before @ user # rest) =
     concat (map (weeklyRun env oneWeekAgo st) before) @ [JobError e]"
  using assms
proof (induction before)
  case Nil
  then show ?case by simp
next
  case (Cons v before)
  from Cons.prems(2) [of v] obtain s where "generateWeeklyStats env (u_id v) oneWeekAgo st = Inr s"
    by auto
  with Cons show ?case by (simp add: weeklyRun_def)
qed

text \<open>
  Claim C4, as the code has it. A rejected mail never stops a batch job: when the store
  answers the jobs' queries, the daily job and the weekly job take the turn of every
  user with \<open>emailNotifications\<close> on, in order, whatever \<open>sendMail\<close> does; the dispatcher is
  called for each of them (in the daily job, for each with a task due soon). A query
  that the store rejects in one user's turn is another matter: it ends the run at the
  job's \<open>catch\<close>, as \<open>dailyLoop_stops\<close> and \<open>weeklyLoop_stops\<close> say.
\<close>

theorem batch_jobs_survive_delivery_failures:
  assumes "\<not> dbFails env User_find"
    and "\<forall>i. \<not> dbFails env (Task_find (Some i)) \<and> \<not> dbFails env (Task_countDocuments i) \<and>
           \<not> dbFails env (Task_aggregate i)"
  shows "sendDailySummary env tomorrow st =
       concat (map (dueSoonRun env tomorrow st) (notifiedUsers st)) \<and>
     sendWeeklySummaries env oneWeekAgo st =
       concat (map (weeklyRun env oneWeekAgo st) (notifiedUsers st)) \<and>
     (\<forall>user \<in> set (users st). emailNotifications (preferences user) \<longrightarrow>
        set (dueSoonRun env tomorrow st user) \<subseteq> set (sendDailySummary env tomorrow st) \<and>
        set (weeklyRun env oneWeekAgo st user) \<subseteq> set (sendWeeklySummaries env oneWeekAgo st) \<and>
        (\<exists>s. Called user (WeeklyMail s) \<in> set (weeklyRun env oneWeekAgo st user)) \<and>
        (dueSoonTasks (u_id user) tomorrow st \<noteq> [] \<longrightarrow>
           Called user (DueSoonMail (dueSoonTasks (u_id user) tomorrow st))
             \<in> set (dueSoonRun env tomorrow st user)))"
proof -
  have daily: "sendDailySummary env tomorrow st =
      concat (map (dueSoonRun env tomorrow st) (notifiedUsers st))"
    using assms by (simp add: sendDailySummary_def dailyLoop_all)
  have weekly: "sendWeeklySummaries env oneWeekAgo st =
      concat (map (weeklyRun env oneWeekAgo st) (notifiedUsers st))"
    using assms by (simp add: sendWeeklySummaries_def weeklyLoop_all)
  have each: "set (dueSoonRun env tomorrow st user) \<subseteq> set (sendDailySummary env tomorrow st) \<and>
        set (weeklyRun env oneWeekAgo st user) \<subseteq> set (sendWeeklySummaries env oneWeekAgo st) \<and>
        (\<exists>s. Called user (WeeklyMail s) \<in> set (weeklyRun env oneWeekAgo st user)) \<and>
        (dueSoonTasks (u_id user) tomorrow st \<noteq> [] \<longrightarrow>
           Called user (DueSoonMail (dueSoonTasks (u_id user) tomorrow st))
             \<in> set (dueSoonRun env tomorrow st user))"
    if "user \<in> set (users st)" "emailNotifications (preferences user)" for user
  proof -
    from that have "user \<in> set (notifiedUsers st)" by (simp add: notifiedUsers_def)
    then have "set (dueSoonRun env tomorrow st user) \<subseteq> set (sendDailySummary env tomorrow st)"
      and "set (weeklyRun env oneWeekAgo st user) \<subseteq> set (sendWeeklySummaries env oneWeekAgo st)"
      unfolding daily weekly by auto
    moreover have "\<exists>s. Called user (WeeklyMail s) \<in> set (weeklyRun env oneWeekAgo st user)"
      using assms(2) by (auto simp: weeklyRun_def generateWeeklyStats_def sendWeeklySummary_def)
    moreover have "dueSoonTasks (u_id user) tomorrow st \<noteq> [] \<longrightarrow>
           Called user (DueSoonMail (dueSoonTasks (u_id user) tomorrow st))
             \<in> set (dueSoonRun env tomorrow st user)"
      by (simp add: dueSoonRun_def sendTaskDueSoonNotification_def)
    ultimately show ?thesis by blast
  qed
  from daily weekly each show ?thesis by blast
qed

text \<open>Every mail is rejected, and both Alice and Carol still get their turn.\<close>

theorem batch_jobs_survive_delivery_failures_example:
  "sendMailFails deafEnv (email alice) (DueSoonMail [morningTask]) \<and>
   sendDailySummary deafEnv 1704900000000 teamStore =
     [Called alice (DueSoonMail [morningTask]), SendFailed (email alice) (DueSoonMail [morningTask]),
      Called carol (DueSoonMail [carolTask]), SendFailed (email carol) (DueSoonMail [carolTask])]"
proof -
  have h1: "\<not> dbFails deafEnv User_find" by (simp add: deafEnv_def)
  have h2: "\<forall>i. \<not> dbFails deafEnv (Task_find (Some i)) \<and> \<not> dbFails deafEnv (Task_countDocuments i) \<and>
           \<not> dbFails deafEnv (Task_aggregate i)" by (simp add: deafEnv_def)
  have n: "notifiedUsers teamStore = [alice, carol]"
    by (simp add: notifiedUsers_def teamStore_def alice_def bob_def carol_def)
  have a: "dueSoonRun deafEnv 1704900000000 teamStore alice =
      [Called alice (DueSoonMail [morningTask]), SendFailed (email alice) (DueSoonMail [morningTask])]"
    by (simp add: dueSoonRun_def dueSoonTasks_def dueSoonQuery_def teamStore_def morningTask_def
        bobTask_def carolTask_def alice_def sendTaskDueSoonNotification_def sendMail_def deafEnv_def)
  have c: "dueSoonRun deafEnv 1704900000000 teamStore carol =
      [Called carol (DueSoonMail [carolTask]), SendFailed (email carol) (DueSoonMail [carolTask])]"
    by (simp add: dueSoonRun_def dueSoonTasks_def dueSoonQuery_def teamStore_def morningTask_def
        bobTask_def carolTask_def carol_def sendTaskDueSoonNotification_def sendMail_def deafEnv_def)
  from batch_jobs_survive_delivery_failures [OF h1 h2, of 1704900000000 teamStore]
  have "sendDailySummary deafEnv 1704900000000 teamStore =
      concat (map (dueSoonRun deafEnv 1704900000000 teamStore) (notifiedUsers teamStore))" by blast
  then have "sendDailySummary deafEnv 1704900000000 teamStore =
     [Called alice (DueSoonMail [morningTask]), SendFailed (email alice) (DueSoonMail [morningTask]),
      Called carol (DueSoonMail [carolTask]), SendFailed (email carol) (DueSoonMail [carolTask])]"
    unfolding n by (simp add: a c)
  moreover have "sendMailFails deafEnv (email alice) (DueSoonMail [morningTask])"
    by (simp add: deafEnv_def)
  ultimately show ?thesis by simp
qed

text \<open>The claim as stated fails: the store rejects the query of Alice's turn, and Carol,
  who comes after her and has a task due, is not processed by either job.\<close>

theorem batch_job_aborted_by_rejected_query:
  "carol \<in> set (notifiedUsers teamStore) \<and>
   dueSoonTasks (u_id carol) 1704900000000 teamStore \<noteq> [] \<and>
   sendDailySummary brokenEnv 1704900000000 teamStore =
     [JobError (Rejected (Task_find (Some 1)))] \<and>
   sendWeeklySummaries brokenEnv 1704400000000 teamStore =
     [JobError (Rejected (Task_countDocuments 1))]"
  by code_simp

section \<open>Documents under assignment and save\<close>

lemmas setter_defs = set_title_def set_completed_def set_category_def set_dueDate_def
  set_reminderDate_def set_userId_def set_completedAt_def mark_def

lemma isModified_loaded [simp]: "isModified p (loaded t) = False"
  by (simp add: isModified_def loaded_def)

lemma setters_t_id [simp]:
  "t_id (doc (set_title s d)) = t_id (doc d)"
  "t_id (doc (set_completed c d)) = t_id (doc d)"
  "t_id (doc (set_category s d)) = t_id (doc d)"
  "t_id (doc (set_dueDate v d)) = t_id (doc d)"
  "t_id (doc (set_reminderDate v d)) = t_id (doc d)"
  "t_id (doc (set_userId i d)) = t_id (doc d)"
  "t_id (doc (set_completedAt v d)) = t_id (doc d)"
  by (simp_all add: setter_defs)

lemma setters_isNew [simp]:
  "isNew (set_title s d) = isNew d"
  "isNew (set_completed c d) = isNew d"
  "isNew (set_category s d) = isNew d"
  "isNew (set_dueDate v d) = isNew d"
  "isNew (set_reminderDate v d) = isNew d"
  "isNew (set_userId i d) = isNew d"
  "isNew (set_completedAt v d) = isNew d"
  by (simp_all add: setter_defs)

lemma setters_dueDate [simp]:
  "dueDate (doc (set_title s d)) = dueDate (doc d)"
  "dueDate (doc (set_completed c d)) = dueDate (doc d)"
  "dueDate (doc (set_category s d)) = dueDate (doc d)"
  "dueDate (doc (set_dueDate v d)) = v"
  "dueDate (doc (set_reminderDate v d)) = dueDate (doc d)"
  "dueDate (doc (set_userId i d)) = dueDate (doc d)"
  "dueDate (doc (set_completedAt v d)) = dueDate (doc d)"
  by (simp_all add: setter_defs)

lemma setters_reminderDate [simp]:
  "reminderDate (doc (set_title s d)) = reminderDate (doc d)"
  "reminderDate (doc (set_completed c d)) = reminderDate (doc d)"
  "reminderDate (doc (set_category s d)) = reminderDate (doc d)"
  "reminderDate (doc (set_dueDate v d)) = reminderDate (doc d)"
  "reminderDate (doc (set_reminderDate v d)) = v"
  "reminderDate (doc (set_userId i d)) = reminderDate (doc d)"
  "reminderDate (doc (set_completedAt v d)) = reminderDate (doc d)"
  by (simp_all add: setter_defs)

lemma setters_completed [simp]:
  "completed (doc (set_title s d)) = completed (doc d)"
  "completed (doc (set_completed c d)) = c"
  "completed (doc (set_category s d)) = completed (doc d)"
  "completed (doc (set_dueDate v d)) = completed (doc d)"
  "completed (doc (set_reminderDate v d)) = completed (doc d)"
  "completed (doc (set_userId i d)) = completed (doc d)"
  "completed (doc (set_completedAt v d)) = completed (doc d)"
  by (simp_all add: setter_defs)

lemma setters_completedAt [simp]:
  "completedAt (doc (set_title s d)) = completedAt (doc d)"
  "completedAt (doc (set_completed c d)) = completedAt (doc d)"
  "completedAt (doc (set_category s d)) = completedAt (doc d)"
  "completedAt (doc (set_dueDate v d)) = completedAt (doc d)"
  "completedAt (doc (set_reminderDate v d)) = completedAt (doc d)"
  "completedAt (doc (set_userId i d)) = completedAt (doc d)"
  "completedAt (doc (set_completedAt v d)) = v"
  by (simp_all add: setter_defs)

lemma setters_isModified_completed [simp]:
  "isModified P_completed (set_title s d) = isModified P_completed d"
  "isModified P_completed (set_completed c d) =
     (isModified P_completed d \<or> isNew d \<or> completed (doc d) \<noteq> c)"
  "isModified P_completed (set_category s d) = isModified P_completed d"
  "isModified P_completed (set_dueDate v d) = isModified P_completed d"
  "isModified P_completed (set_reminderDate v d) = isModified P_completed d"
  "isModified P_completed (set_userId i d) = isModified P_completed d"
  "isModified P_completed (set_completedAt v d) = isModified P_completed d"
  by (auto simp: setter_defs isModified_def)

lemma assign_t_id [simp]:
  "t_id (doc (assign set_title s1 d)) = t_id (doc d)"
  "t_id (doc (assign set_completed c1 d)) = t_id (doc d)"
  "t_id (doc (assign set_category s2 d)) = t_id (doc d)"
  "t_id (doc (assign set_dueDate v1 d)) = t_id (doc d)"
  "t_id (doc (assign set_reminderDate v2 d)) = t_id (doc d)"
  "t_id (doc (assign set_userId i1 d)) = t_id (doc d)"
  "t_id (doc (assign set_completedAt v3 d)) = t_id (doc d)"
  by (simp_all add: assign_def split: option.splits)

lemma assign_dueDate [simp]:
  "dueDate (doc (assign set_title s1 d)) = dueDate (doc d)"
  "dueDate (doc (assign set_completed c1 d)) = dueDate (doc d)"
  "dueDate (doc (assign set_category s2 d)) = dueDate (doc d)"
  "dueDate (doc (assign set_dueDate v1 d)) = (case v1 of None \<Rightarrow> dueDate (doc d) | Some x \<Rightarrow> x)"
  "dueDate (doc (assign set_reminderDate v2 d)) = dueDate (doc d)"
  "dueDate (doc (assign set_userId i1 d)) = dueDate (doc d)"
  "dueDate (doc (assign set_completedAt v3 d)) = dueDate (doc d)"
  by (simp_all add: assign_def split: option.splits)

lemma assign_reminderDate [simp]:
  "reminderDate (doc (assign set_title s1 d)) = reminderDate (doc d)"
  "reminderDate (doc (assign set_completed c1 d)) = reminderDate (doc d)"
  "reminderDate (doc (assign set_category s2 d)) = reminderDate (doc d)"
  "reminderDate (doc (assign set_dueDate v1 d)) = reminderDate (doc d)"
  "reminderDate (doc (assign set_reminderDate v2 d)) = (case v2 of None \<Rightarrow> reminderDate (doc d) | Some x \<Rightarrow> x)"
  "reminderDate (doc (assign set_userId i1 d)) = reminderDate (doc d)"
  "reminderDate (doc (assign set_completedAt v3 d)) = reminderDate (doc d)"
  by (simp_all add: assign_def split: option.splits)

lemma assign_completed [simp]:
  "completed (doc (assign set_title s1 d)) = completed (doc d)"
  "completed (doc (assign set_completed c1 d)) = (case c1 of None \<Rightarrow> completed (doc d) | Some x \<Rightarrow> x)"
  "completed (doc (assign set_category s2 d)) = completed (doc d)"
  "completed (doc (assign set_dueDate v1 d)) = completed (doc d)"
  "completed (doc (assign set_reminderDate v2 d)) = completed (doc d)"
  "completed (doc (assign set_userId i1 d)) = completed (doc d)"
  "completed (doc (assign set_completedAt v3 d)) = completed (doc d)"
  by (simp_all add: assign_def split: option.splits)

lemma assign_completedAt [simp]:
  "completedAt (doc (assign set_title s1 d)) = completedAt (doc d)"
  "completedAt (doc (assign set_completed c1 d)) = completedAt (doc d)"
  "completedAt (doc (assign set_category s2 d)) = completedAt (doc d)"
  "completedAt (doc (assign set_dueDate v1 d)) = completedAt (doc d)"
  "completedAt (doc (assign set_reminderDate v2 d)) = completedAt (doc d)"
  "completedAt (doc (assign set_userId i1 d)) = completedAt (doc d)"
  "completedAt (doc (assign set_completedAt v3 d)) = (case v3 of None \<Rightarrow> completedAt (doc d) | Some x \<Rightarrow> x)"
  by (simp_all add: assign_def split: option.splits)

lemma assign_isNew [simp]:
  "isNew (assign set_title s1 d) = isNew d"
  "isNew (assign set_completed c1 d) = isNew d"
  "isNew (assign set_category s2 d) = isNew d"
  "isNew (assign set_dueDate v1 d) = isNew d"
  "isNew (assign set_reminderDate v2 d) = isNew d"
  "isNew (assign set_userId i1 d) = isNew d"
  "isNew (assign set_completedAt v3 d) = isNew d"
  by (simp_all add: assign_def split: option.splits)

lemma assign_isModified_completed [simp]:
  "isModified P_completed (assign set_title s1 d) = isModified P_completed d"
  "isModified P_completed (assign set_completed c1 d) =
     (isModified P_completed d \<or>
      (case c1 of None \<Rightarrow> False | Some x \<Rightarrow> isNew d \<or> completed (doc d) \<noteq> x))"
  "isModified P_completed (assign set_category s2 d) = isModified P_completed d"
  "isModified P_completed (assign set_dueDate v1 d) = isModified P_completed d"
  "isModified P_completed (assign set_reminderDate v2 d) = isModified P_completed d"
  "isModified P_completed (assign set_userId i1 d) = isModified P_completed d"
  "isModified P_completed (assign set_completedAt v3 d) = isModified P_completed d"
  by (simp_all add: assign_def split: option.splits)

lemma assign_body_t_id [simp]: "t_id (doc (assign_body b d)) = t_id (doc d)"
  by (simp add: assign_body_def split: option.splits)

lemma assign_body_isNew [simp]: "isNew (assign_body b d) = isNew d"
  by (simp add: assign_body_def split: option.splits)

lemma assign_body_dueDate:
  "dueDate (doc (assign_body b d)) = (case b_dueDate b of None \<Rightarrow> dueDate (doc d) | Some x \<Rightarrow> Some x)"
  by (simp add: assign_body_def split: option.splits)

lemma assign_body_reminderDate:
  "reminderDate (doc (assign_body b d)) =
     (case b_reminderDate b of None \<Rightarrow> reminderDate (doc d) | Some v \<Rightarrow> v)"
  by (simp add: assign_body_def split: option.splits)

lemma assign_body_completed:
  "completed (doc (assign_body b d)) = (case b_completed b of None \<Rightarrow> completed (doc d) | Some v \<Rightarrow> v)"
  by (simp add: assign_body_def split: option.splits)

lemma assign_body_completedAt:
  "completedAt (doc (assign_body b d)) =
     (case b_completedAt b of None \<Rightarrow> completedAt (doc d) | Some v \<Rightarrow> v)"
  by (simp add: assign_body_def split: option.splits)

lemma assign_body_isModified_completed:
  "isModified P_completed (assign_body b d) =
     (isModified P_completed d \<or>
      (case b_completed b of None \<Rightarrow> False | Some v \<Rightarrow> isNew d \<or> completed (doc d) \<noteq> v))"
  by (simp add: assign_body_def split: option.splits)

lemma task_pre_save_fields [simp]:
  "t_id (doc (task_pre_save now d)) = t_id (doc d)"
  "dueDate (doc (task_pre_save now d)) = dueDate (doc d)"
  "reminderDate (doc (task_pre_save now d)) = reminderDate (doc d)"
  "completed (doc (task_pre_save now d)) = completed (doc d)"
  by (simp_all add: task_pre_save_def)

lemma task_pre_save_completedAt:
  "completedAt (doc (task_pre_save now d)) =
     (if isModified P_completed d then (if completed (doc d) then Some now else None)
      else completedAt (doc d))"
  by (simp add: task_pre_save_def)

lemma task_save_Inr:
  assumes "task_save env now d st = Inr (t, st')"
  shows "t = doc (task_pre_save now d)"
    and "tasks st' = (if isNew d then tasks st @ [t]
                      else map (\<lambda>x. if t_id x = t_id t then t else x) (tasks st))"
  using assms by (auto simp: task_save_def Let_def split: if_splits)

lemma createTask_saved:
  assumes "createTask env now uid newId body st = (r, st')" and "data r = Some t"
  shows "\<exists>b'. task_save env now (new_Task newId now b') st = Inr (t, st') \<and>
     b_dueDate b' = b_dueDate body \<and> b_completed b' = b_completed body \<and>
     b_completedAt b' = b_completedAt body \<and>
     b_reminderDate b' = (case b_dueDate body of None \<Rightarrow> b_reminderDate body
                          | Some due \<Rightarrow> Some (Some (due - 60 * 60 * 1000)))"
  using assms
  by (auto simp: createTask_def respond_def sanitize_def Let_def
      split: if_splits option.splits sum.splits)

lemma updateTask_saved:
  assumes "updateTask env now uid tid body st = (r, st')" and "data r = Some t"
  shows "\<exists>old. find (\<lambda>x. t_id x = tid \<and> userId x = uid) (tasks st) = Some old \<and>
     task_save env now
       (case b_dueDate body of
          None \<Rightarrow> assign_body (sanitize body) (loaded old)
        | Some due \<Rightarrow> set_reminderDate (Some (due - 60 * 60 * 1000))
                       (assign_body (sanitize body) (loaded old))) st = Inr (t, st')"
  using assms
  by (auto simp: updateTask_def respond_def Let_def split: if_splits option.splits sum.splits)

lemma sanitize_fields [simp]:
  "b_dueDate (sanitize b) = b_dueDate b"
  "b_reminderDate (sanitize b) = b_reminderDate b"
  "b_completed (sanitize b) = b_completed b"
  "b_completedAt (sanitize b) = b_completedAt b"
  by (simp_all add: sanitize_def)

lemma isModified_empty: "isModified p \<lparr>doc = t, isNew = n, modified = {}\<rparr> = False"
  by (simp add: isModified_def)

lemma new_Task_fields:
  "isNew (new_Task newId now b) = True"
  "t_id (doc (new_Task newId now b)) = newId"
  "dueDate (doc (new_Task newId now b)) = b_dueDate b"
  "reminderDate (doc (new_Task newId now b)) = (case b_reminderDate b of None \<Rightarrow> None | Some v \<Rightarrow> v)"
  "completed (doc (new_Task newId now b)) = (b_completed b = Some True)"
  "completedAt (doc (new_Task newId now b)) = (case b_completedAt b of None \<Rightarrow> None | Some v \<Rightarrow> v)"
  "isModified P_completed (new_Task newId now b) = (b_completed b \<noteq> None)"
  by (auto simp: new_Task_def assign_body_dueDate assign_body_reminderDate assign_body_completed
      assign_body_completedAt assign_body_isModified_completed isModified_empty split: option.splits)

lemma setters_title [simp]:
  "title (doc (set_title s d)) = trim s"
  "title (doc (set_completed c d)) = title (doc d)"
  "title (doc (set_category s d)) = title (doc d)"
  "title (doc (set_dueDate v d)) = title (doc d)"
  "title (doc (set_reminderDate v d)) = title (doc d)"
  "title (doc (set_userId i d)) = title (doc d)"
  "title (doc (set_completedAt v d)) = title (doc d)"
  by (simp_all add: setter_defs)

lemma setters_category [simp]:
  "category (doc (set_title s d)) = category (doc d)"
  "category (doc (set_completed c d)) = category (doc d)"
  "category (doc (set_category s d)) = trim s"
  "category (doc (set_dueDate v d)) = category (doc d)"
  "category (doc (set_reminderDate v d)) = category (doc d)"
  "category (doc (set_userId i d)) = category (doc d)"
  "category (doc (set_completedAt v d)) = category (doc d)"
  by (simp_all add: setter_defs)

lemma assign_title [simp]:
  "title (doc (assign set_title s1 d)) = (case s1 of None \<Rightarrow> title (doc d) | Some x \<Rightarrow> trim x)"
  "title (doc (assign set_completed c1 d)) = title (doc d)"
  "title (doc (assign set_category s2 d)) = title (doc d)"
  "title (doc (assign set_dueDate v1 d)) = title (doc d)"
  "title (doc (assign set_reminderDate v2 d)) = title (doc d)"
  "title (doc (assign set_userId i1 d)) = title (doc d)"
  "title (doc (assign set_completedAt v3 d)) = title (doc d)"
  by (simp_all add: assign_def split: option.splits)

lemma assign_category [simp]:
  "category (doc (assign set_title s1 d)) = category (doc d)"
  "category (doc (assign set_completed c1 d)) = category (doc d)"
  "category (doc (assign set_category s2 d)) = (case s2 of None \<Rightarrow> category (doc d) | Some x \<Rightarrow> trim x)"
  "category (doc (assign set_dueDate v1 d)) = category (doc d)"
  "category (doc (assign set_reminderDate v2 d)) = category (doc d)"
  "category (doc (assign set_userId i1 d)) = category (doc d)"
  "category (doc (assign set_completedAt v3 d)) = category (doc d)"
  by (simp_all add: assign_def split: option.splits)

lemma assign_body_title:
  "title (doc (assign_body b d)) = (case b_title b of None \<Rightarrow> title (doc d) | Some x \<Rightarrow> trim x)"
  by (simp add: assign_body_def split: option.splits)

lemma assign_body_category:
  "category (doc (assign_body b d)) =
     (case b_category b of None \<Rightarrow> category (doc d) | Some x \<Rightarrow> trim x)"
  by (simp add: assign_body_def split: option.splits)

lemma task_valid_assign_body:
  "b_title b' = b_title b \<Longrightarrow> b_category b' = b_category b \<Longrightarrow>
     task_valid (assign_body b' d) = task_valid (assign_body b d)"
  by (simp add: task_valid_def assign_body_title assign_body_category)

lemma task_valid_set_reminderDate [simp]:
  "task_valid (set_reminderDate v d) = task_valid d"
  by (simp add: task_valid_def)

lemma sanitize_strings [simp]:
  "b_title (sanitize b) = map_option trim (b_title b)"
  "b_category (sanitize b) = map_option trim (b_category b)"
  by (simp_all add: sanitize_def)

lemma task_valid_new_Task:
  "task_valid (new_Task newId now b) =
     ((case b_title b of None \<Rightarrow> False | Some x \<Rightarrow> trim x \<noteq> [] \<and> length (trim x) \<le> 200) \<and>
      (case b_category b of None \<Rightarrow> False | Some x \<Rightarrow> trim x \<noteq> [] \<and> length (trim x) \<le> 50))"
  by (simp add: task_valid_def new_Task_def assign_body_title assign_body_category
      split: option.splits)

lemma createTask_succeeds:
  assumes v: "bounded 1 200 (b_title body)" "bounded 1 50 (b_category body)"
    and ok: "task_valid (new_Task newId now (sanitize body))"
    and db: "\<not> dbFails env (Task_save newId)"
  shows "\<exists>t s. createTask env now uid newId body st =
      (respond 201 True ''Task created successfully'' (Some t), s)"
proof (cases "b_dueDate body")
  case None
  with assms show ?thesis
    by (auto simp add: createTask_def Let_def task_save_def task_valid_new_Task new_Task_fields)
next
  case (Some due)
  with assms show ?thesis
    by (auto simp add: createTask_def Let_def task_save_def task_valid_new_Task new_Task_fields)
qed

lemma updateTask_succeeds:
  assumes v: "optional 1 200 (b_title body)" "optional 1 50 (b_category body)"
    and fo: "\<not> dbFails env (Task_findOne tid)"
    and f: "find (\<lambda>x. t_id x = tid \<and> userId x = uid) (tasks st) = Some old"
    and ok: "task_valid (assign_body (sanitize body) (loaded old))"
    and db: "\<not> dbFails env (Task_save tid)"
  shows "\<exists>t s. updateTask env now uid tid body st =
      (respond 200 True ''Task updated successfully'' (Some t), s)"
proof -
  from f have i: "t_id (doc (loaded old)) = tid" by (auto simp: find_Some_iff loaded_def)
  have n: "\<not> isNew (loaded old)" by (simp add: loaded_def)
  show ?thesis
  proof (cases "b_dueDate body")
    case None
    with assms i n show ?thesis
      by (auto simp add: updateTask_def Let_def task_save_def)
  next
    case (Some due)
    with assms i n show ?thesis
      by (auto simp add: updateTask_def Let_def task_save_def)
  qed
qed


lemma createTask_reminder:
  assumes "createTask env now uid newId body st = (r, st')" and "data r = Some t"
  shows "dueDate t = b_dueDate body"
    and "\<forall>due. dueDate t = Some due \<longrightarrow> reminderDate t = Some (due - 60 * 60 * 1000)"
    and "t \<in> set (tasks st')"
proof -
  from assms obtain b' where s: "task_save env now (new_Task newId now b') st = Inr (t, st')"
    and b': "b_dueDate b' = b_dueDate body"
      "b_reminderDate b' = (case b_dueDate body of None \<Rightarrow> b_reminderDate body
                          | Some due \<Rightarrow> Some (Some (due - 60 * 60 * 1000)))"
    using createTask_saved by blast
  from task_save_Inr [OF s] have t: "t = doc (task_pre_save now (new_Task newId now b'))"
    and ts: "tasks st' = tasks st @ [t]" by (simp_all add: new_Task_fields)
  show "dueDate t = b_dueDate body" unfolding t by (simp add: new_Task_fields b')
  show "\<forall>due. dueDate t = Some due \<longrightarrow> reminderDate t = Some (due - 60 * 60 * 1000)"
    unfolding t by (simp add: new_Task_fields b')
  show "t \<in> set (tasks st')" unfolding ts by simp
qed

lemma updateTask_reminder:
  assumes "updateTask env now uid tid body st = (r, st')" and "data r = Some t"
    and "b_dueDate body = Some due"
  shows "dueDate t = Some due" and "reminderDate t = Some (due - 60 * 60 * 1000)"
    and "t \<in> set (tasks st')"
proof -
  from assms obtain old where f: "find (\<lambda>x. t_id x = tid \<and> userId x = uid) (tasks st) = Some old"
    and s: "task_save env now (set_reminderDate (Some (due - 60 * 60 * 1000))
              (assign_body (sanitize body) (loaded old))) st = Inr (t, st')"
    using updateTask_saved [of env now uid tid body st r st' t] by auto
  from task_save_Inr [OF s]
  have t: "t = doc (task_pre_save now (set_reminderDate (Some (due - 60 * 60 * 1000))
              (assign_body (sanitize body) (loaded old))))"
    and ts: "tasks st' = map (\<lambda>x. if t_id x = t_id t then t else x) (tasks st)"
    by (simp_all add: loaded_def)
  show "dueDate t = Some due" unfolding t using assms(3) by (simp add: assign_body_dueDate)
  show "reminderDate t = Some (due - 60 * 60 * 1000)" unfolding t by simp
  from f have "old \<in> set (tasks st)" "t_id old = tid" by (auto simp: find_Some_iff)
  moreover have "t_id t = tid" unfolding t using \<open>t_id old = tid\<close> by (simp add: loaded_def)
  ultimately show "t \<in> set (tasks st')" unfolding ts by force
qed

lemma data_respond: "data (respond s ok m d) = d"
  by (simp add: respond_def)

section \<open>The reminder is one hour before the due date\<close>

text \<open>
  Claim C5. A task that \<open>POST /api/tasks\<close> has created has the \<open>dueDate\<close> of the request,
  and when that is set its \<open>reminderDate\<close> is the \<open>dueDate\<close> minus one hour; a task that
  \<open>PUT /api/tasks/:id\<close> has updated with a \<open>dueDate\<close> in the request has that \<open>dueDate\<close> and
  the \<open>reminderDate\<close> one hour before it. In both cases this is the stored task. And the
  handlers do answer so: when the request passes the validators, the document passes the
  schema's validation and the store accepts the calls, \<open>POST\<close> answers 201 with such a
  task, and \<open>PUT\<close> with a \<open>dueDate\<close> on a task of the user answers 200 with such a task.
\<close>

theorem reminder_one_hour_before_due:
  "(createTask env now uid newId body st = (r, st') \<and> data r = Some t \<longrightarrow>
      dueDate t = b_dueDate body \<and>
      (\<forall>due. dueDate t = Some due \<longrightarrow> reminderDate t = Some (due - 60 * 60 * 1000)) \<and>
      t \<in> set (tasks st')) \<and>
   (updateTask env now uid tid body st = (r, st') \<and> data r = Some t \<and> b_dueDate body = Some due \<longrightarrow>
      dueDate t = Some due \<and> reminderDate t = Some (due - 60 * 60 * 1000) \<and> t \<in> set (tasks st')) \<and>
   (bounded 1 200 (b_title body) \<and> bounded 1 50 (b_category body) \<and>
    task_valid (new_Task newId now (sanitize body)) \<and> \<not> dbFails env (Task_save newId) \<longrightarrow>
      (\<exists>t' s'. createTask env now uid newId body st =
           (respond 201 True ''Task created successfully'' (Some t'), s') \<and>
         dueDate t' = b_dueDate body \<and>
         (\<forall>due. dueDate t' = Some due \<longrightarrow> reminderDate t' = Some (due - 60 * 60 * 1000)) \<and>
         t' \<in> set (tasks s'))) \<and>
   (optional 1 200 (b_title body) \<and> optional 1 50 (b_category body) \<and>
    \<not> dbFails env (Task_findOne tid) \<and>
    find (\<lambda>x. t_id x = tid \<and> userId x = uid) (tasks st) = Some old \<and>
    task_valid (assign_body (sanitize body) (loaded old)) \<and> \<not> dbFails env (Task_save tid) \<and>
    b_dueDate body = Some due \<longrightarrow>
      (\<exists>t' s'. updateTask env now uid tid body st =
           (respond 200 True ''Task updated successfully'' (Some t'), s') \<and>
         dueDate t' = Some due \<and> reminderDate t' = Some (due - 60 * 60 * 1000) \<and>
         t' \<in> set (tasks s')))"
proof (intro conjI impI)
  assume a: "createTask env now uid newId body st = (r, st') \<and> data r = Some t"
  then have c: "createTask env now uid newId body st = (r, st')" and d: "data r = Some t"
    by simp_all
  from createTask_reminder [OF c d]
  show "dueDate t = b_dueDate body"
    and "\<forall>due. dueDate t = Some due \<longrightarrow> reminderDate t = Some (due - 60 * 60 * 1000)"
    and "t \<in> set (tasks st')" .
next
  assume a: "updateTask env now uid tid body st = (r, st') \<and> data r = Some t \<and> b_dueDate body = Some due"
  then have c: "updateTask env now uid tid body st = (r, st')" and d: "data r = Some t"
    and b: "b_dueDate body = Some due" by simp_all
  from updateTask_reminder [OF c d b]
  show "dueDate t = Some due" and "reminderDate t = Some (due - 60 * 60 * 1000)"
    and "t \<in> set (tasks st')" .
next
  assume a: "bounded 1 200 (b_title body) \<and> bounded 1 50 (b_category body) \<and>
    task_valid (new_Task newId now (sanitize body)) \<and> \<not> dbFails env (Task_save newId)"
  then obtain t' s' where c: "createTask env now uid newId body st =
      (respond 201 True ''Task created successfully'' (Some t'), s')"
    using createTask_succeeds [where body = body and newId = newId and now = now and env = env
        and uid = uid and st = st] by blast
  have d: "data (respond 201 True ''Task created successfully'' (Some t')) = Some t'"
    by (simp add: data_respond)
  from createTask_reminder [OF c d] c
  show "\<exists>t' s'. createTask env now uid newId body st =
           (respond 201 True ''Task created successfully'' (Some t'), s') \<and>
         dueDate t' = b_dueDate body \<and>
         (\<forall>due. dueDate t' = Some due \<longrightarrow> reminderDate t' = Some (due - 60 * 60 * 1000)) \<and>
         t' \<in> set (tasks s')" by blast
next
  assume a: "optional 1 200 (b_title body) \<and> optional 1 50 (b_category body) \<and>
    \<not> dbFails env (Task_findOne tid) \<and>
    find (\<lambda>x. t_id x = tid \<and> userId x = uid) (tasks st) = Some old \<and>
    task_valid (assign_body (sanitize body) (loaded old)) \<and> \<not> dbFails env (Task_save tid) \<and>
    b_dueDate body = Some due"
  then obtain t' s' where c: "updateTask env now uid tid body st =
      (respond 200 True ''Task updated successfully'' (Some t'), s')"
    using updateTask_succeeds [where body = body and tid = tid and env = env and uid = uid
        and st = st and old = old and now = now] by blast
  have d: "data (respond 200 True ''Task updated successfully'' (Some t')) = Some t'"
    by (simp add: data_respond)
  from a have b: "b_dueDate body = Some due" by simp
  from updateTask_reminder [OF c d b] c
  show "\<exists>t' s'. updateTask env now uid tid body st =
           (respond 200 True ''Task updated successfully'' (Some t'), s') \<and>
         dueDate t' = Some due \<and> reminderDate t' = Some (due - 60 * 60 * 1000) \<and>
         t' \<in> set (tasks s')" by blast
qed

text \<open>Due at 10:00 on 2024-01-10, the created task has its reminder at 09:00; moved to
  10:00 on 2024-01-11 by an update, it has its reminder at 09:00 on that day.\<close>

lemma created_report:
  "createTask calmEnv 1704800000000 1 1 reportBody emptyStore =
     (respond 201 True ''Task created successfully'' (Some morningTask),
      emptyStore\<lparr>tasks := [morningTask]\<rparr>)"
  by code_simp

lemma postponed_report:
  "updateTask calmEnv 1704850000000 1 1 postponeBody morningStore =
     (respond 200 True ''Task updated successfully'' (Some postponedTask),
      morningStore\<lparr>tasks := [postponedTask]\<rparr>)"
  by code_simp

lemma postpone_valid:
  "task_valid (assign_body (sanitize postponeBody) (loaded morningTask))"
  by code_simp

lemma report_valid:
  "bounded 1 200 (b_title reportBody) \<and> bounded 1 50 (b_category reportBody) \<and>
   task_valid (new_Task 1 1704800000000 (sanitize reportBody))"
  by code_simp

lemma morning_found:
  "find (\<lambda>x. t_id x = 1 \<and> userId x = 1) (tasks morningStore) = Some morningTask"
  by (simp add: morningStore_def morningTask_def)

theorem reminder_one_hour_before_due_example:
  "createTask calmEnv 1704800000000 1 1 reportBody emptyStore =
     (respond 201 True ''Task created successfully'' (Some morningTask),
      emptyStore\<lparr>tasks := [morningTask]\<rparr>) \<and>
   dueDate morningTask = Some 1704880800000 \<and>
   reminderDate morningTask = Some (1704880800000 - 60 * 60 * 1000) \<and>
   updateTask calmEnv 1704850000000 1 1 postponeBody morningStore =
     (respond 200 True ''Task updated successfully'' (Some postponedTask),
      morningStore\<lparr>tasks := [postponedTask]\<rparr>) \<and>
   b_dueDate postponeBody = Some 1704967200000 \<and>
   dueDate postponedTask = Some 1704967200000 \<and>
   reminderDate postponedTask = Some (1704967200000 - 60 * 60 * 1000) \<and>
   postponedTask \<in> set (tasks (morningStore\<lparr>tasks := [postponedTask]\<rparr>))"
proof -
  have due: "dueDate morningTask = Some 1704880800000" by (simp add: morningTask_def)
  have calm: "\<not> dbFails calmEnv c" for c by (simp add: calmEnv_def)
  note post = reminder_one_hour_before_due [where env = calmEnv and now = 1704800000000
      and uid = 1 and newId = 1 and body = reportBody and st = emptyStore
      and r = "respond 201 True ''Task created successfully'' (Some morningTask)"
      and st' = "emptyStore\<lparr>tasks := [morningTask]\<rparr>" and t = morningTask]
  from post created_report report_valid calm
  have "\<forall>due. dueDate morningTask = Some due \<longrightarrow> reminderDate morningTask = Some (due - 60 * 60 * 1000)"
    by simp
  with due have p1: "reminderDate morningTask = Some (1704880800000 - 60 * 60 * 1000)" by blast
  have b: "b_dueDate postponeBody = Some 1704967200000" by (simp add: postponeBody_def)
  have o: "optional 1 200 (b_title postponeBody)" "optional 1 50 (b_category postponeBody)"
    by (simp_all add: optional_def postponeBody_def)
  note put = reminder_one_hour_before_due [where env = calmEnv and now = 1704850000000
      and uid = 1 and tid = 1 and body = postponeBody and st = morningStore
      and old = morningTask and due = 1704967200000]
  from put o calm morning_found postpone_valid b
  obtain t' s' where u: "updateTask calmEnv 1704850000000 1 1 postponeBody morningStore =
        (respond 200 True ''Task updated successfully'' (Some t'), s')"
    and p2: "dueDate t' = Some 1704967200000"
      "reminderDate t' = Some (1704967200000 - 60 * 60 * 1000)" "t' \<in> set (tasks s')"
    by blast
  from u postponed_report have e: "t' = postponedTask" "s' = morningStore\<lparr>tasks := [postponedTask]\<rparr>"
    by (simp_all add: respond_def)
  from created_report due p1 postponed_report b p2 [unfolded e] show ?thesis by blast
qed

section \<open>The completion timestamp\<close>

text \<open>
  Claim C6, as the code has it. A save in which \<open>completed\<close> is modified leaves
  \<open>completedAt\<close> at the current time when \<open>completed\<close> is now true and null when it is now
  false; a save in which \<open>completed\<close> is not modified leaves \<open>completedAt\<close> as the document
  holds it. For the create and update requests that carry no \<open>completedAt\<close> key of their
  own: the created task has \<open>completedAt\<close> set exactly when it is created completed; an
  update sets it to the current time exactly when \<open>completed\<close> goes from false to true,
  clears it exactly when \<open>completed\<close> goes from true to false, and leaves it unchanged
  otherwise, so that \<open>completedAt\<close> non-null iff \<open>completed\<close> is preserved.
\<close>

theorem completedAt_follows_completed:
  "(task_save env now d st = Inr (t, st') \<longrightarrow>
      completed t = completed (doc d) \<and>
      completedAt t =
        (if isModified P_completed d then (if completed t then Some now else None)
         else completedAt (doc d))) \<and>
   (createTask env now uid newId body st = (r, st') \<and> data r = Some t \<and> b_completedAt body = None \<longrightarrow>
      completedAt t = (if completed t then Some now else None)) \<and>
   (updateTask env now uid tid body st = (r, st') \<and> data r = Some t \<and> b_completedAt body = None \<and>
    find (\<lambda>x. t_id x = tid \<and> userId x = uid) (tasks st) = Some old \<longrightarrow>
      completedAt t =
        (if completed t \<noteq> completed old then (if completed t then Some now else None)
         else completedAt old) \<and>
      ((completedAt old \<noteq> None \<longleftrightarrow> completed old) \<longrightarrow> (completedAt t \<noteq> None \<longleftrightarrow> completed t)))"
proof (intro conjI impI)
  assume s: "task_save env now d st = Inr (t, st')"
  from task_save_Inr(1) [OF s] show "completed t = completed (doc d)" by simp
  from task_save_Inr(1) [OF s]
  show "completedAt t =
        (if isModified P_completed d then (if completed t then Some now else None)
         else completedAt (doc d))"
    by (simp add: task_pre_save_completedAt)
next
  assume a: "createTask env now uid newId body st = (r, st') \<and> data r = Some t \<and>
    b_completedAt body = None"
  then obtain b' where s: "task_save env now (new_Task newId now b') st = Inr (t, st')"
    and b': "b_completed b' = b_completed body" "b_completedAt b' = b_completedAt body"
    using createTask_saved [of env now uid newId body st r st' t] by blast
  from task_save_Inr(1) [OF s] a b'
  show "completedAt t = (if completed t then Some now else None)"
    by (auto simp: task_pre_save_completedAt new_Task_fields)
next
  assume a: "updateTask env now uid tid body st = (r, st') \<and> data r = Some t \<and>
    b_completedAt body = None \<and> find (\<lambda>x. t_id x = tid \<and> userId x = uid) (tasks st) = Some old"
  let ?d = "assign_body (sanitize body) (loaded old)"
  let ?d' = "case b_dueDate body of None \<Rightarrow> ?d
             | Some due \<Rightarrow> set_reminderDate (Some (due - 60 * 60 * 1000)) ?d"
  from a updateTask_saved [of env now uid tid body st r st' t]
  have s: "task_save env now ?d' st = Inr (t, st')" by auto
  have c: "completed (doc ?d') = (case b_completed body of None \<Rightarrow> completed old | Some v \<Rightarrow> v)"
    and m: "isModified P_completed ?d' = (completed (doc ?d') \<noteq> completed old)"
    and ca: "completedAt (doc ?d') = completedAt old"
    using a
    by (auto simp: assign_body_completed assign_body_isModified_completed assign_body_completedAt
        loaded_def isModified_empty split: option.splits)
  from task_save_Inr(1) [OF s]
  have t: "completed t = completed (doc ?d')"
    "completedAt t = (if isModified P_completed ?d' then (if completed (doc ?d') then Some now else None)
       else completedAt (doc ?d'))"
    by (simp_all add: task_pre_save_completedAt)
  show eq: "completedAt t =
        (if completed t \<noteq> completed old then (if completed t then Some now else None)
         else completedAt old)"
    unfolding t m ca by simp
  assume "(completedAt old \<noteq> None) = completed old"
  with eq show "(completedAt t \<noteq> None) = completed t" by (auto split: if_splits)
qed

text \<open>Completing the task of the example sets \<open>completedAt\<close> to the time of the request.\<close>

lemma completed_report:
  "updateTask calmEnv 1704850000000 1 1 (noBody\<lparr>b_completed := Some True\<rparr>) morningStore =
     (respond 200 True ''Task updated successfully''
        (Some (morningTask\<lparr>completed := True, completedAt := Some 1704850000000\<rparr>)),
      morningStore\<lparr>tasks := [morningTask\<lparr>completed := True, completedAt := Some 1704850000000\<rparr>]\<rparr>)"
  by code_simp

theorem completedAt_follows_completed_example:
  "find (\<lambda>x. t_id x = 1 \<and> userId x = 1) (tasks morningStore) = Some morningTask \<and>
   completed morningTask = False \<and> completedAt morningTask = None \<and>
   data (fst (updateTask calmEnv 1704850000000 1 1 (noBody\<lparr>b_completed := Some True\<rparr>) morningStore)) =
     Some (morningTask\<lparr>completed := True, completedAt := Some 1704850000000\<rparr>) \<and>
   completedAt (morningTask\<lparr>completed := True, completedAt := Some 1704850000000\<rparr>) =
     (if completed (morningTask\<lparr>completed := True, completedAt := Some 1704850000000\<rparr>) \<noteq>
         completed morningTask
      then (if completed (morningTask\<lparr>completed := True, completedAt := Some 1704850000000\<rparr>)
            then Some 1704850000000 else None)
      else completedAt morningTask)"
proof -
  let ?t = "morningTask\<lparr>completed := True, completedAt := Some 1704850000000\<rparr>"
  let ?r = "respond 200 True ''Task updated successfully'' (Some ?t)"
  have f: "find (\<lambda>x. t_id x = 1 \<and> userId x = 1) (tasks morningStore) = Some morningTask"
    by (simp add: morningStore_def morningTask_def)
  have d: "data ?r = Some ?t" by (simp add: respond_def)
  have n: "b_completedAt (noBody\<lparr>b_completed := Some True\<rparr>) = None" by (simp add: noBody_def)
  have o: "completed morningTask = False" "completedAt morningTask = None"
    by (simp_all add: morningTask_def)
  from completedAt_follows_completed [where env = calmEnv and now = 1704850000000 and uid = 1
      and tid = 1 and body = "noBody\<lparr>b_completed := Some True\<rparr>" and st = morningStore
      and r = ?r and st' = "morningStore\<lparr>tasks := [?t]\<rparr>" and t = ?t and old = morningTask]
    completed_report d n f
  have "completedAt ?t =
      (if completed ?t \<noteq> completed morningTask then (if completed ?t then Some 1704850000000 else None)
       else completedAt morningTask)"
    by blast
  moreover have "data (fst (updateTask calmEnv 1704850000000 1 1
      (noBody\<lparr>b_completed := Some True\<rparr>) morningStore)) = Some ?t"
    unfolding completed_report by (simp add: respond_def)
  ultimately show ?thesis using f o by blast
qed

text \<open>The claim as stated fails: a request that carries \<open>completedAt\<close> and leaves
  \<open>completed\<close> alone is saved as it is, and the task is incomplete with a completion
  time.\<close>

theorem completedAt_assigned_by_request:
  "find (\<lambda>x. t_id x = 1 \<and> userId x = 1) (tasks morningStore) = Some morningTask \<and>
   completed morningTask = False \<and> completedAt morningTask = None \<and>
   updateTask calmEnv 1704850000000 1 1 (noBody\<lparr>b_completedAt := Some (Some 1704700000000)\<rparr>) morningStore =
     (respond 200 True ''Task updated successfully''
        (Some (morningTask\<lparr>completedAt := Some 1704700000000\<rparr>)),
      morningStore\<lparr>tasks := [morningTask\<lparr>completedAt := Some 1704700000000\<rparr>]\<rparr>) \<and>
   completed (morningTask\<lparr>completedAt := Some 1704700000000\<rparr>) = False \<and>
   completedAt (morningTask\<lparr>completedAt := Some 1704700000000\<rparr>) \<noteq> None"
  by code_simp

section \<open>Deleting a category\<close>

text \<open>
  Claim C7. When the store answers, \<open>DELETE /api/categories/:id\<close> on a category of the
  requesting user is refused with an error response (status 400, \<open>success\<close> false) and
  leaves the store as it was, the category included, whenever at least one task of that
  user names the category; when no task does, it succeeds (status 200) and the category
  is gone from the store, with everything else as before: no category of that \<open>_id\<close> is
  left, and a later delete or update request for it changes nothing and does not
  succeed.
\<close>

theorem category_delete_guard:
  assumes "\<not> dbFails env (Category_findOne uid)" and "\<not> dbFails env (Task_countDocuments uid)"
    and "\<not> dbFails env (Category_findByIdAndDelete cid)"
    and "find (\<lambda>c. c_id c = cid \<and> c_userId c = uid) (categories st) = Some c"
    and "deleteCategory env uid cid st = (r, st')"
  shows "if list_ex (\<lambda>t. userId t = uid \<and> category t = c_name c) (tasks st)
     then status r = 400 \<and> success r = False \<and> st' = st \<and> c \<in> set (categories st')
     else status r = 200 \<and> success r = True \<and>
          users st' = users st \<and> tasks st' = tasks st \<and>
          categories st' = filter (\<lambda>x. c_id x \<noteq> cid) (categories st) \<and>
          \<not> list_ex (\<lambda>x. c_id x = cid) (categories st') \<and>
          (\<forall>env' uid'. status (fst (deleteCategory env' uid' cid st')) \<noteq> 200 \<and>
             snd (deleteCategory env' uid' cid st') = st') \<and>
          (\<forall>env' uid' body. status (fst (updateCategory env' uid' cid body st')) \<noteq> 200 \<and>
             snd (updateCategory env' uid' cid body st') = st')"
proof (cases "list_ex (\<lambda>t. userId t = uid \<and> category t = c_name c) (tasks st)")
  case True
  then have "tasksInCategory uid c st > 0"
    by (auto simp: tasksInCategory_def list_ex_iff filter_empty_conv)
  with assms have "status r = 400 \<and> success r = False \<and> st' = st"
    by (auto simp: deleteCategory_def respond_def)
  moreover from assms(4) have "c \<in> set (categories st)" by (auto simp: find_Some_iff)
  ultimately show ?thesis using True by simp
next
  case False
  then have "tasksInCategory uid c st = 0"
    by (auto simp: tasksInCategory_def list_ex_iff filter_empty_conv)
  with assms have r: "status r = 200 \<and> success r = True"
    and st': "st' = st\<lparr>categories := filter (\<lambda>x. c_id x \<noteq> cid) (categories st)\<rparr>"
    by (auto simp: deleteCategory_def respond_def)
  have gone: "find (\<lambda>c. c_id c = cid \<and> c_userId c = uid') (categories st') = None" for uid'
    unfolding st' by (simp add: find_None_iff)
  have del: "status (fst (deleteCategory env' uid' cid st')) \<noteq> 200 \<and>
      snd (deleteCategory env' uid' cid st') = st'" for env' uid'
    using gone [of uid'] by (simp add: deleteCategory_def respond_def)
  have upd: "status (fst (updateCategory env' uid' cid body st')) \<noteq> 200 \<and>
      snd (updateCategory env' uid' cid body st') = st'" for env' uid' body
    using gone [of uid'] by (simp add: updateCategory_def respond_def)
  have "\<not> list_ex (\<lambda>x. c_id x = cid) (categories st')"
    unfolding st' by (simp add: list_ex_iff)
  with r st' del upd False show ?thesis by simp
qed

text \<open>``Work'' is used by a task and stays; ``Spare'' is unused and is removed.\<close>

lemma filed_found:
  "find (\<lambda>c. c_id c = 10 \<and> c_userId c = 1) (categories filedStore) = Some workCategory"
  "find (\<lambda>c. c_id c = 11 \<and> c_userId c = 1) (categories filedStore) = Some spareCategory"
  by (simp_all add: filedStore_def workCategory_def spareCategory_def homeCategory_def)

theorem category_delete_guard_example:
  "list_ex (\<lambda>t. userId t = 1 \<and> category t = c_name workCategory) (tasks filedStore) \<and>
   status (fst (deleteCategory calmEnv 1 10 filedStore)) = 400 \<and>
   snd (deleteCategory calmEnv 1 10 filedStore) = filedStore \<and>
   \<not> list_ex (\<lambda>t. userId t = 1 \<and> category t = c_name spareCategory) (tasks filedStore) \<and>
   status (fst (deleteCategory calmEnv 1 11 filedStore)) = 200 \<and>
   categories (snd (deleteCategory calmEnv 1 11 filedStore)) = [workCategory, homeCategory]"
proof -
  have e: "\<not> dbFails calmEnv (Category_findOne 1)" "\<not> dbFails calmEnv (Task_countDocuments 1)"
    "\<not> dbFails calmEnv (Category_findByIdAndDelete 10)"
    "\<not> dbFails calmEnv (Category_findByIdAndDelete 11)"
    by (simp_all add: calmEnv_def)
  have used: "list_ex (\<lambda>t. userId t = 1 \<and> category t = c_name workCategory) (tasks filedStore)"
    by (simp add: filedStore_def morningTask_def bobTask_def workCategory_def)
  have unused: "\<not> list_ex (\<lambda>t. userId t = 1 \<and> category t = c_name spareCategory) (tasks filedStore)"
    by (simp add: filedStore_def morningTask_def bobTask_def spareCategory_def)
  have c: "deleteCategory calmEnv 1 cid filedStore =
      (fst (deleteCategory calmEnv 1 cid filedStore), snd (deleteCategory calmEnv 1 cid filedStore))"
    for cid by simp
  from category_delete_guard [OF e(1) e(2) e(3) filed_found(1) c] used
  have "status (fst (deleteCategory calmEnv 1 10 filedStore)) = 400 \<and>
      snd (deleteCategory calmEnv 1 10 filedStore) = filedStore" by simp
  moreover from category_delete_guard [OF e(1) e(2) e(4) filed_found(2) c] unused
  have "status (fst (deleteCategory calmEnv 1 11 filedStore)) = 200 \<and>
      categories (snd (deleteCategory calmEnv 1 11 filedStore)) =
        filter (\<lambda>x. c_id x \<noteq> 11) (categories filedStore)" by simp
  moreover have "filter (\<lambda>x. c_id x \<noteq> 11) (categories filedStore) = [workCategory, homeCategory]"
    by (simp add: filedStore_def workCategory_def spareCategory_def homeCategory_def)
  ultimately show ?thesis using used unused by simp
qed

section \<open>One default category per user\<close>

text \<open>Lists of categories under the maps that a save applies.\<close>

lemma filter_map_le:
  assumes "\<And>x. x \<in> set xs \<Longrightarrow> P (f x) \<Longrightarrow> Q x"
  shows "length (filter P (map f xs)) \<le> length (filter Q xs)"
  using assms by (induction xs) auto

lemma filter_map_none:
  assumes "\<And>x. x \<in> set xs \<Longrightarrow> \<not> P (f x)"
  shows "filter P (map f xs) = []"
  using assms by (induction xs) auto

lemma one_per_id:
  "distinct (map c_id cs) \<Longrightarrow> length (filter (\<lambda>x. c_id x = i) cs) \<le> 1"
proof (induction cs)
  case Nil
  show ?case by simp
next
  case (Cons c cs)
  show ?case
  proof (cases "c_id c = i")
    case True
    from Cons.prems have "c_id c \<notin> c_id ` set cs" by simp
    with True have "\<And>x. x \<in> set cs \<Longrightarrow> c_id x \<noteq> i" by blast
    then have "filter (\<lambda>x. c_id x = i) cs = []"
      by (simp add: filter_empty_conv)
    with True show ?thesis by simp
  next
    case False
    with Cons show ?thesis by simp
  qed
qed

lemma same_id_same_doc:
  "distinct (map c_id cs) \<Longrightarrow> x \<in> set cs \<Longrightarrow> y \<in> set cs \<Longrightarrow> c_id x = c_id y \<Longrightarrow> x = y"
  by (metis distinct_map inj_on_def)

lemmas c_setter_defs = set_name_def set_owner_def set_isDefault_def set_order_def c_mark_def

lemma c_assign_body_fields:
  "c_id (cdoc (c_assign_body b d)) = c_id (cdoc d)"
  "c_userId (cdoc (c_assign_body b d)) = (case cb_userId b of None \<Rightarrow> c_userId (cdoc d) | Some v \<Rightarrow> v)"
  "isDefault (cdoc (c_assign_body b d)) = (case cb_isDefault b of None \<Rightarrow> isDefault (cdoc d) | Some v \<Rightarrow> v)"
  "c_isNew (c_assign_body b d) = c_isNew d"
  "P_isDefault \<in> c_modified (c_assign_body b d) \<longleftrightarrow>
     P_isDefault \<in> c_modified d \<or>
     (case cb_isDefault b of None \<Rightarrow> False | Some v \<Rightarrow> c_isNew d \<or> isDefault (cdoc d) \<noteq> v)"
  by (auto simp: c_assign_body_def c_assign_def c_setter_defs split: option.splits)

text \<open>What the hook does when it fires: a category saved with \<open>isDefault\<close> newly true
  leaves no other category of its user with the flag.\<close>

lemma clearOtherDefaults_others:
  "x \<in> set (clearOtherDefaults this cs) \<Longrightarrow> c_userId x = c_userId this \<Longrightarrow> c_id x \<noteq> c_id this \<Longrightarrow>
     isDefault x = False"
  by (auto simp: clearOtherDefaults_def split: if_splits)

lemma category_save_clears_others:
  assumes "category_save env d st = (Inr c, st')" and "isDefault (cdoc d)"
    and "P_isDefault \<in> c_modified d"
  shows "c = cdoc d"
    and "\<And>x. x \<in> set (categories st') \<Longrightarrow> c_userId x = c_userId c \<Longrightarrow> c_id x \<noteq> c_id c \<Longrightarrow>
           isDefault x = False"
proof -
  from assms show c: "c = cdoc d"
    by (auto simp: category_save_def category_pre_save_def Let_def split: if_splits)
  from assms have "categories st' = clearOtherDefaults c (categories st) @ [c] \<or>
      categories st' = map (\<lambda>x. if c_id x = c_id c then c else x) (clearOtherDefaults c (categories st))"
    unfolding c by (auto simp: category_save_def category_pre_save_def Let_def split: if_splits)
  then show "isDefault x = False"
    if "x \<in> set (categories st')" "c_userId x = c_userId c" "c_id x \<noteq> c_id c" for x
    using that by (auto dest: clearOtherDefaults_others split: if_splits)
qed

text \<open>The stores a save and an update can leave behind.\<close>

lemma category_save_store:
  assumes "category_save env d st = (res, st')"
  shows "st' = st \<or>
     (if isDefault (cdoc d) \<and> P_isDefault \<in> c_modified d
      then categories st' = clearOtherDefaults (cdoc d) (categories st) \<or>
           categories st' =
             (if c_isNew d then clearOtherDefaults (cdoc d) (categories st) @ [cdoc d]
              else map (\<lambda>x. if c_id x = c_id (cdoc d) then cdoc d else x)
                     (clearOtherDefaults (cdoc d) (categories st)))
      else categories st' =
             (if c_isNew d then categories st @ [cdoc d]
              else map (\<lambda>x. if c_id x = c_id (cdoc d) then cdoc d else x) (categories st)))"
proof (cases "isDefault (cdoc d) \<and> P_isDefault \<in> c_modified d")
  case True
  with assms show ?thesis
    by (auto simp: category_save_def category_pre_save_def Let_def split: if_splits)
next
  case False
  with assms show ?thesis
    by (auto simp: category_save_def category_pre_save_def Let_def split: if_splits)
qed

lemma updateCategory_saved:
  assumes "updateCategory env uid cid body st = (r, st')"
  shows "st' = st \<or>
     (\<exists>found. find (\<lambda>c. c_id c = cid \<and> c_userId c = uid) (categories st) = Some found \<and>
        st' = snd (category_save env
                (c_assign_body body \<lparr>cdoc = found, c_isNew = False, c_modified = {}\<rparr>) st))"
proof (cases "find (\<lambda>c. c_id c = cid \<and> c_userId c = uid) (categories st)")
  case None
  with assms show ?thesis by (auto simp: updateCategory_def split: if_splits)
next
  case (Some found)
  obtain res st'' where s: "category_save env
      (c_assign_body body \<lparr>cdoc = found, c_isNew = False, c_modified = {}\<rparr>) st = (res, st'')"
    by (cases "category_save env
      (c_assign_body body \<lparr>cdoc = found, c_isNew = False, c_modified = {}\<rparr>) st")
  from assms Some s have "st' = st \<or> st' = st''"
    by (cases res) (auto simp: updateCategory_def split: if_splits)
  with Some s show ?thesis by auto
qed

lemma updateCategory_store:
  assumes "updateCategory env uid cid body st = (r, st')"
  shows "st' = st \<or>
     (\<exists>found. find (\<lambda>c. c_id c = cid \<and> c_userId c = uid) (categories st) = Some found \<and>
        (let d = c_assign_body body \<lparr>cdoc = found, c_isNew = False, c_modified = {}\<rparr>; c = cdoc d in
         if isDefault c \<and> P_isDefault \<in> c_modified d
         then categories st' = clearOtherDefaults c (categories st) \<or>
              categories st' = map (\<lambda>x. if c_id x = c_id c then c else x)
                                 (clearOtherDefaults c (categories st))
         else categories st' = map (\<lambda>x. if c_id x = c_id c then c else x) (categories st)))"
proof -
  from updateCategory_saved [OF assms] show ?thesis
  proof
    assume "st' = st"
    then show ?thesis by simp
  next
    assume "\<exists>found. find (\<lambda>c. c_id c = cid \<and> c_userId c = uid) (categories st) = Some found \<and>
        st' = snd (category_save env
                (c_assign_body body \<lparr>cdoc = found, c_isNew = False, c_modified = {}\<rparr>) st)"
    then obtain found where f: "find (\<lambda>c. c_id c = cid \<and> c_userId c = uid) (categories st) = Some found"
      and st': "st' = snd (category_save env
                (c_assign_body body \<lparr>cdoc = found, c_isNew = False, c_modified = {}\<rparr>) st)"
      by blast
    let ?d = "c_assign_body body \<lparr>cdoc = found, c_isNew = False, c_modified = {}\<rparr>"
    have n: "c_isNew ?d = False" by (simp add: c_assign_body_fields)
    have "category_save env ?d st = (fst (category_save env ?d st), st')" using st' by simp
    from category_save_store [OF this] f show ?thesis
      unfolding Let_def n by (auto split: if_splits)
  qed
qed

text \<open>Where every user has at most one default category and \<open>_id\<close>s are unique, an
  update that does not name another owner, and the creation of a category under a fresh
  \<open>_id\<close>, leave it so, whether they succeed or fail.\<close>

lemma update_keeps_one_default:
  assumes ids: "distinct (map c_id (categories st))"
    and inv: "\<And>u. length (filter (\<lambda>c. c_userId c = u \<and> isDefault c) (categories st)) \<le> 1"
    and same_owner: "cb_userId body = None"
    and run: "updateCategory env uid cid body st = (r, st')"
  shows "length (filter (\<lambda>c. c_userId c = u \<and> isDefault c) (categories st')) \<le> 1"
proof -
  let ?P = "\<lambda>c. c_userId c = u \<and> isDefault c"
  let ?cs = "categories st"
  from updateCategory_store [OF run] show ?thesis
  proof
    assume "st' = st"
    with inv show ?thesis by simp
  next
    assume "\<exists>found. find (\<lambda>c. c_id c = cid \<and> c_userId c = uid) ?cs = Some found \<and>
        (let d = c_assign_body body \<lparr>cdoc = found, c_isNew = False, c_modified = {}\<rparr>; c = cdoc d in
         if isDefault c \<and> P_isDefault \<in> c_modified d
         then categories st' = clearOtherDefaults c ?cs \<or>
              categories st' = map (\<lambda>x. if c_id x = c_id c then c else x) (clearOtherDefaults c ?cs)
         else categories st' = map (\<lambda>x. if c_id x = c_id c then c else x) ?cs)"
    then obtain found where f: "find (\<lambda>c. c_id c = cid \<and> c_userId c = uid) ?cs = Some found"
      and res: "let d = c_assign_body body \<lparr>cdoc = found, c_isNew = False, c_modified = {}\<rparr>; c = cdoc d in
         if isDefault c \<and> P_isDefault \<in> c_modified d
         then categories st' = clearOtherDefaults c ?cs \<or>
              categories st' = map (\<lambda>x. if c_id x = c_id c then c else x) (clearOtherDefaults c ?cs)
         else categories st' = map (\<lambda>x. if c_id x = c_id c then c else x) ?cs"
      by blast
    define d where "d = c_assign_body body \<lparr>cdoc = found, c_isNew = False, c_modified = {}\<rparr>"
    define c where "c = cdoc d"
    from f have fm: "found \<in> set ?cs" and fid: "c_id found = cid" by (auto simp: find_Some_iff)
    have cid: "c_id c = c_id found" and cown: "c_userId c = c_userId found"
      and flag: "P_isDefault \<notin> c_modified d \<Longrightarrow> isDefault c = isDefault found"
      unfolding c_def d_def using same_owner
      by (auto simp: c_assign_body_fields split: option.splits)
    let ?rep = "\<lambda>x. if c_id x = c_id c then c else x"
    let ?clr = "\<lambda>x. if c_userId x = c_userId c \<and> c_id x \<noteq> c_id c then x\<lparr>isDefault := False\<rparr> else x"
    have clr: "clearOtherDefaults c ?cs = map ?clr ?cs" by (simp add: clearOtherDefaults_def)
    show ?thesis
    proof (cases "isDefault c \<and> P_isDefault \<in> c_modified d")
      case True
      with res have opts: "categories st' = map ?clr ?cs \<or> categories st' = map (?rep \<circ> ?clr) ?cs"
        unfolding d_def [symmetric] c_def [symmetric] clr Let_def by simp
      show ?thesis
      proof (cases "u = c_userId c")
        case True
        have "length (filter ?P (map ?clr ?cs)) \<le> length (filter ?P ?cs)"
          by (rule filter_map_le) (auto split: if_splits)
        moreover have "length (filter ?P (map (?rep \<circ> ?clr) ?cs)) \<le> length (filter (\<lambda>x. c_id x = c_id c) ?cs)"
          by (rule filter_map_le) (use True in \<open>auto split: if_splits\<close>)
        ultimately show ?thesis using opts inv [of u] one_per_id [OF ids, of "c_id c"] by auto
      next
        case False
        have "length (filter ?P (map ?clr ?cs)) \<le> length (filter ?P ?cs)"
          by (rule filter_map_le) (auto split: if_splits)
        moreover have "length (filter ?P (map (?rep \<circ> ?clr) ?cs)) \<le> length (filter ?P ?cs)"
          by (rule filter_map_le) (use False in \<open>auto split: if_splits\<close>)
        ultimately show ?thesis using opts inv [of u] by auto
      qed
    next
      case False
      with res have st': "categories st' = map ?rep ?cs"
        unfolding d_def [symmetric] c_def [symmetric] Let_def by simp
      have "length (filter ?P (map ?rep ?cs)) \<le> length (filter ?P ?cs)"
      proof (rule filter_map_le)
        fix x assume x: "x \<in> set ?cs" and p: "?P (?rep x)"
        show "?P x"
        proof (cases "c_id x = c_id c")
          case True
          with same_id_same_doc [OF ids x fm] cid have "x = found" by simp
          moreover from True p have "c_userId c = u" "isDefault c" by simp_all
          moreover from this False flag have "isDefault found" by auto
          ultimately show ?thesis using cown by simp
        next
          case False
          with p show ?thesis by simp
        qed
      qed
      with st' inv [of u] show ?thesis by simp
    qed
  qed
qed


lemma createCategory_saved:
  assumes "createCategory env uid newId body st = (r, st')"
  shows "st' = st \<or>
     (\<exists>name flag ord. st' = snd (category_save env
        \<lparr>cdoc = \<lparr>c_id = newId, c_name = name, c_userId = uid, isDefault = flag, c_order = ord\<rparr>,
         c_isNew = True, c_modified = {P_name, P_owner, P_isDefault, P_order}\<rparr> st))"
proof -
  let ?d = "\<lparr>cdoc = \<lparr>c_id = newId,
      c_name = trim (case cb_name body of None \<Rightarrow> [] | Some n \<Rightarrow> n), c_userId = uid,
      isDefault = (case cb_isDefault body of None \<Rightarrow> False | Some v \<Rightarrow> v),
      c_order = nextOrder uid (categories st)\<rparr>,
    c_isNew = True, c_modified = {P_name, P_owner, P_isDefault, P_order}\<rparr>"
  obtain res st'' where s: "category_save env ?d st = (res, st'')"
    by (cases "category_save env ?d st")
  from assms s have "st' = st \<or> st' = st''"
    by (cases res) (auto simp: createCategory_def Let_def split: if_splits)
  with s show ?thesis by (metis snd_conv)
qed

lemma create_keeps_one_default:
  assumes fresh: "newId \<notin> c_id ` set (categories st)"
    and inv: "\<And>u. length (filter (\<lambda>c. c_userId c = u \<and> isDefault c) (categories st)) \<le> 1"
    and run: "createCategory env uid newId body st = (r, st')"
  shows "length (filter (\<lambda>c. c_userId c = u \<and> isDefault c) (categories st')) \<le> 1"
proof -
  let ?P = "\<lambda>c. c_userId c = u \<and> isDefault c"
  let ?cs = "categories st"
  from createCategory_saved [OF run] show ?thesis
  proof
    assume "st' = st"
    with inv show ?thesis by simp
  next
    assume "\<exists>name flag ord. st' = snd (category_save env
        \<lparr>cdoc = \<lparr>c_id = newId, c_name = name, c_userId = uid, isDefault = flag, c_order = ord\<rparr>,
         c_isNew = True, c_modified = {P_name, P_owner, P_isDefault, P_order}\<rparr> st)"
    then obtain name flag ord where st': "st' = snd (category_save env
        \<lparr>cdoc = \<lparr>c_id = newId, c_name = name, c_userId = uid, isDefault = flag, c_order = ord\<rparr>,
         c_isNew = True, c_modified = {P_name, P_owner, P_isDefault, P_order}\<rparr> st)"
      by blast
    define c where "c = \<lparr>c_id = newId, c_name = name, c_userId = uid, isDefault = flag, c_order = ord\<rparr>"
    let ?d = "\<lparr>cdoc = c, c_isNew = True, c_modified = {P_name, P_owner, P_isDefault, P_order}\<rparr>"
    let ?clr = "\<lambda>x. if c_userId x = c_userId c \<and> c_id x \<noteq> c_id c then x\<lparr>isDefault := False\<rparr> else x"
    have clr: "clearOtherDefaults c ?cs = map ?clr ?cs" by (simp add: clearOtherDefaults_def)
    have "category_save env ?d st = (fst (category_save env ?d st), st')"
      using st' unfolding c_def by simp
    from category_save_store [OF this]
    have opts: "st' = st \<or>
        (if isDefault c then categories st' = map ?clr ?cs \<or> categories st' = map ?clr ?cs @ [c]
         else categories st' = ?cs @ [c])"
      by (cases "isDefault c") (simp_all add: clr)
    have narrow: "length (filter ?P (map ?clr ?cs)) \<le> length (filter ?P ?cs)"
      by (rule filter_map_le) (auto split: if_splits)
    have other: "c_id x \<noteq> c_id c" if "x \<in> set ?cs" for x
      using that fresh by (auto simp: c_def)
    have none: "filter ?P (map ?clr ?cs) = []" if u: "u = c_userId c"
    proof -
      have "\<not> ?P (?clr x)" if "x \<in> set ?cs" for x
        using other [OF that] u by simp
      then show ?thesis by (rule filter_map_none)
    qed
    show ?thesis
    proof (cases "isDefault c")
      case False
      with opts have "st' = st \<or> categories st' = ?cs @ [c]" by simp
      then show ?thesis
      proof
        assume "st' = st"
        with inv [of u] show ?thesis by simp
      next
        assume "categories st' = ?cs @ [c]"
        with False inv [of u] show ?thesis by simp
      qed
    next
      case True
      with opts consider "st' = st" | "categories st' = map ?clr ?cs"
        | "categories st' = map ?clr ?cs @ [c]" by auto
      then show ?thesis
      proof cases
        case 1
        with inv [of u] show ?thesis by simp
      next
        case 2
        with narrow inv [of u] show ?thesis by simp
      next
        case 3
        show ?thesis
        proof (cases "u = c_userId c")
          case True
          from none [OF True] 3 show ?thesis by simp
        next
          case False
          with 3 narrow inv [of u] show ?thesis by simp
        qed
      qed
    qed
  qed
qed

text \<open>
  Claim C9 says that after any category save every user has at most one category with
  \<open>isDefault\<close> true. The update route breaks it. Alice's default category ``Work'' and
  Bob's default category ``Home'' are each the only default of their user; Alice's
  request \<open>PUT /api/categories/10\<close> with the body \<open>{userId: 2}\<close> is answered with status
  200, the hook does not fire because \<open>isDefault\<close> is not modified, and the category is
  saved as Bob's: Bob now has two default categories.
\<close>

theorem two_defaults_after_owner_change:
  "find (\<lambda>c. c_id c = 10 \<and> c_userId c = 1) (categories filedStore) = Some workCategory \<and>
   length (filter (\<lambda>c. c_userId c = 2 \<and> isDefault c) (categories filedStore)) = 1 \<and>
   updateCategory calmEnv 1 10 moveBody filedStore =
     (respond 200 True ''Category updated successfully'' (Some (workCategory\<lparr>c_userId := 2\<rparr>)),
      filedStore\<lparr>categories := [workCategory\<lparr>c_userId := 2\<rparr>, spareCategory, homeCategory]\<rparr>) \<and>
   filter (\<lambda>c. c_userId c = 2 \<and> isDefault c)
     (categories (snd (updateCategory calmEnv 1 10 moveBody filedStore))) =
     [workCategory\<lparr>c_userId := 2\<rparr>, homeCategory]"
  by code_simp


end
